theory Spec2Isabelle
  imports Main "HOL-Library.Word"
begin

unbundle bit_operations_syntax

section \<open>The outside world: packages, errors, the file system\<close>

text \<open>
  The fields of \<^verbatim>\<open>go/build.Package\<close> that \<^verbatim>\<open>cmd/golo/golo.go\<close> and
  \<^verbatim>\<open>cmd/kodos/kodos.go\<close> read or write. \<open>ImportPath\<close> is the module identifier.
\<close>

record package =
  Dir :: string
  Name :: string
  ImportPath :: string
  Imports :: "string list"

text \<open>
  An \<^verbatim>\<open>error\<close> returned by \<^verbatim>\<open>os.Stat\<close>, \<^verbatim>\<open>os.Open\<close> or \<^verbatim>\<open>Readdir\<close>: what
  \<^verbatim>\<open>os.IsNotExist(err)\<close> answers and the text \<^verbatim>\<open>err.Error()\<close>.
\<close>

datatype oserror = OsError (IsNotExist: bool) (Error: string)

text \<open>
  The errors of \<^verbatim>\<open>build.ImportDir\<close>: \<^verbatim>\<open>*build.NoGoError\<close> (no buildable source in the
  directory) and every other error, each with its text.
\<close>

datatype builderror = NoGoError string | OtherError string

fun buildErrorText :: "builderror \<Rightarrow> string" where
  "buildErrorText (NoGoError m) = m"
| "buildErrorText (OtherError m) = m"

text \<open>
  What the resolver asks of its environment: \<^verbatim>\<open>runtime.GOROOT()\<close>, \<^verbatim>\<open>os.Stat\<close> (\<open>None\<close>
  is \<^verbatim>\<open>err == nil\<close>) and \<^verbatim>\<open>build.ImportDir(dir, 0)\<close>.
\<close>

record world =
  GOROOT :: string
  Stat :: "string \<Rightarrow> oserror option"
  ImportDir :: "string \<Rightarrow> builderror + package"

text \<open>
  \<^verbatim>\<open>fatal\<close> writes to standard error and calls \<^verbatim>\<open>os.Exit(1)\<close>. A function that can end
  the process returns \<open>string + 'a\<close>: \<open>Inl msg\<close> is the process ended with \<open>msg\<close> on
  standard error, \<open>Inr v\<close> is the function returned \<open>v\<close>.

  \<^verbatim>\<open>fmt.Fprint(os.Stderr, "fatal: ", arg)\<close> puts no space between its operands (one of them
  is a string); \<^verbatim>\<open>fmt.Fprintln(os.Stderr, args...)\<close> separates its operands by spaces and
  ends the line.
\<close>

fun joinWith :: "string \<Rightarrow> string list \<Rightarrow> string" where
  "joinWith sep [] = []"
| "joinWith sep [x] = x"
| "joinWith sep (x # y # ys) = x @ sep @ joinWith sep (y # ys)"

definition Sprintln :: "string list \<Rightarrow> string" where
  "Sprintln args = joinWith '' '' args @ [CHR 0x0A]"

definition fatal :: "string \<Rightarrow> string list \<Rightarrow> string" where
  "fatal arg args = ''fatal: '' @ arg @ Sprintln args"

text \<open>\<^verbatim>\<open>check(err)\<close> with \<^verbatim>\<open>err != nil\<close> is \<^verbatim>\<open>fatal(err)\<close>.\<close>

definition check :: "string \<Rightarrow> string" where
  "check err = fatal err []"

section \<open>Paths\<close>

text \<open>
  \<^verbatim>\<open>path.Join\<close> (and \<^verbatim>\<open>filepath.Join\<close> where the separator is the slash) of Go's standard
  library, after its documentation: empty elements are ignored, the rest are joined by
  slashes and the result is cleaned; no element or only empty ones give the empty string.
  \<^verbatim>\<open>Clean\<close> replaces runs of slashes by one, drops every \<^verbatim>\<open>.\<close> element, drops every inner
  \<^verbatim>\<open>..\<close> with the element before it, drops \<^verbatim>\<open>..\<close> at the start of a rooted path, and
  returns \<^verbatim>\<open>.\<close> for an empty result.
\<close>

fun splitSlash :: "string \<Rightarrow> string list" where
  "splitSlash [] = [[]]"
| "splitSlash (c # cs) =
     (if c = CHR ''/'' then [] # splitSlash cs
      else (case splitSlash cs of [] \<Rightarrow> [[c]] | x # xs \<Rightarrow> (c # x) # xs))"

definition cleanElem :: "bool \<Rightarrow> string list \<Rightarrow> string \<Rightarrow> string list" where
  "cleanElem rooted out e =
     (if e = [] \<or> e = ''.'' then out
      else if e = ''..'' then
        (if out \<noteq> [] \<and> last out \<noteq> ''..'' then butlast out
         else if rooted then out
         else out @ [''..''])
      else out @ [e])"

definition pathClean :: "string \<Rightarrow> string" where
  "pathClean p =
     (let rooted = (p \<noteq> [] \<and> hd p = CHR ''/'');
          out = foldl (cleanElem rooted) [] (splitSlash p);
          r = (if rooted then ''/'' else []) @ joinWith ''/'' out
      in if r = [] then ''.'' else r)"

definition pathJoin :: "string list \<Rightarrow> string" where
  "pathJoin elem =
     (let es = filter (\<lambda>e. e \<noteq> []) elem
      in if es = [] then [] else pathClean (joinWith ''/'' es))"

section \<open>Loading a located directory\<close>

text \<open>
  \<^verbatim>\<open>importPath(path, dir)\<close>: \<^verbatim>\<open>build.ImportDir\<close>, \<^verbatim>\<open>check(err)\<close>, then
  \<^verbatim>\<open>pkg.ImportPath = path\<close>.
\<close>

definition importPath :: "world \<Rightarrow> string \<Rightarrow> string \<Rightarrow> string + package" where
  "importPath w path dir =
     (case ImportDir w dir of
        Inl err \<Rightarrow> Inl (check (buildErrorText err))
      | Inr pkg \<Rightarrow> Inr (pkg\<lparr>ImportPath := path\<rparr>))"

text \<open>
  The closure \<^verbatim>\<open>load\<close> of \<^verbatim>\<open>loadDependencies(rootdir, srcs...)\<close>: \<^verbatim>\<open>os.Stat\<close> of
  \<^verbatim>\<open>GOROOT/src/path\<close>; on any error, \<^verbatim>\<open>os.Stat\<close> of \<^verbatim>\<open>rootdir/vendor/path\<close>; on any error
  there, \<^verbatim>\<open>fatal("cannot resolve path", path, err.Error())\<close>.
\<close>

definition load :: "world \<Rightarrow> string \<Rightarrow> string \<Rightarrow> string + package" where
  "load w rootdir path =
     (let dir = pathJoin [GOROOT w, ''src'', path] in
      case Stat w dir of
        None \<Rightarrow> importPath w path dir
      | Some _ \<Rightarrow>
          (let dir = pathJoin [rootdir, ''vendor'', path] in
           case Stat w dir of
             None \<Rightarrow> importPath w path dir
           | Some err \<Rightarrow> Inl (fatal ''cannot resolve path'' [path, Error err])))"

section \<open>The dependency resolver\<close>

text \<open>
  The variables the closure \<^verbatim>\<open>walk\<close> shares with \<^verbatim>\<open>loadDependencies\<close>: the map
  \<^verbatim>\<open>seen\<close> and the slice \<^verbatim>\<open>srcs\<close>. Reading a Go \<^verbatim>\<open>map[string]bool\<close> at a key it does
  not hold gives \<^verbatim>\<open>false\<close>.
\<close>

record resolver =
  seen :: "string \<rightharpoonup> bool"
  srcs :: "package list"

definition isSeen :: "(string \<rightharpoonup> bool) \<Rightarrow> string \<Rightarrow> bool" where
  "isSeen m k = (case m k of None \<Rightarrow> False | Some b \<Rightarrow> b)"

text \<open>
  A \<^verbatim>\<open>for ... range\<close> loop whose body may not return (\<open>None\<close>) or may end the process
  (\<open>Some (Inl msg)\<close>): the loop stops there.
\<close>

fun forEach :: "('a \<Rightarrow> 's \<Rightarrow> (string + 's) option) \<Rightarrow> 'a list \<Rightarrow> 's \<Rightarrow> (string + 's) option" where
  "forEach body [] s = Some (Inr s)"
| "forEach body (x # xs) s =
     Option.bind (body x s)
       (\<lambda>r. case r of Inl e \<Rightarrow> Some (Inl e) | Inr s' \<Rightarrow> forEach body xs s')"

lemma forEach_mono [partial_function_mono]:
  assumes "\<And>x s. mono_option (\<lambda>f. B f x s)"
  shows "mono_option (\<lambda>f. forEach (B f) xs s)"
proof (induction xs arbitrary: s)
  case Nil
  show ?case by (simp add: option.const_mono)
next
  case (Cons x xs)
  have "mono_option (\<lambda>f. case r of Inl e \<Rightarrow> Some (Inl e) | Inr s' \<Rightarrow> forEach (B f) xs s')" for r
    by (cases r) (simp_all add: option.const_mono Cons.IH)
  then show ?case
    by (simp add: bind_mono assms)
qed

text \<open>
  The closure \<^verbatim>\<open>walk\<close>. The recursion follows the imports the file system reports, so
  it need not end: \<open>None\<close> is the walk that never returns.
\<close>

partial_function (option) walk ::
    "world \<Rightarrow> string \<Rightarrow> string \<Rightarrow> resolver \<Rightarrow> (string + resolver) option" where
  "walk w rootdir path st =
     (if isSeen (seen st) path then Some (Inr st)
      else
        (let st1 = st\<lparr>seen := (seen st)(path \<mapsto> True)\<rparr> in
         case load w rootdir path of
           Inl e \<Rightarrow> Some (Inl e)
         | Inr pkg \<Rightarrow>
             forEach (walk w rootdir) (Imports pkg) (st1\<lparr>srcs := srcs st1 @ [pkg]\<rparr>)))"

declare walk.simps [code]

text \<open>
  \<^verbatim>\<open>loadDependencies(rootdir, srcs...)\<close>: mark every initial \<^verbatim>\<open>ImportPath\<close> as seen, then
  walk the imports of the initial packages (\<^verbatim>\<open>range srcs[:]\<close> is evaluated once, so the
  outer loop runs over the initial packages only), and return \<^verbatim>\<open>srcs\<close>.
\<close>

definition markAll :: "package list \<Rightarrow> (string \<rightharpoonup> bool)" where
  "markAll srcs0 = foldl (\<lambda>m src. m(ImportPath src \<mapsto> True)) Map.empty srcs0"

definition loadDependencies :: "world \<Rightarrow> string \<Rightarrow> package list \<Rightarrow> (string + package list) option" where
  "loadDependencies w rootdir srcs0 =
     (case forEach (\<lambda>src. forEach (walk w rootdir) (Imports src)) srcs0
             \<lparr>seen = markAll srcs0, srcs = srcs0\<rparr> of
        None \<Rightarrow> None
      | Some (Inl e) \<Rightarrow> Some (Inl e)
      | Some (Inr st) \<Rightarrow> Some (Inr (srcs st)))"

section \<open>The cache path\<close>

text \<open>
  \<^verbatim>\<open>sha1.Sum\<close> of Go's standard library: SHA-1 as FIPS 180-4 defines it, on the bytes of
  the key. The result is a \<^verbatim>\<open>[20]byte\<close>.
\<close>

type_synonym byte = "8 word"
type_synonym u32 = "32 word"

definition rotl :: "nat \<Rightarrow> u32 \<Rightarrow> u32" where
  "rotl n x = push_bit n x OR drop_bit (32 - n) x"

definition be32 :: "byte list \<Rightarrow> u32" where
  "be32 bs = foldl (\<lambda>acc b. push_bit 8 acc OR ucast b) 0 bs"

fun chunks :: "nat \<Rightarrow> 'a list \<Rightarrow> 'a list list" where
  "chunks n [] = []"
| "chunks n (x # xs) =
     (if n = 0 then [] else take n (x # xs) # chunks n (drop n (x # xs)))"

definition putUint32 :: "u32 \<Rightarrow> byte list" where
  "putUint32 v = [ucast (drop_bit 24 v), ucast (drop_bit 16 v), ucast (drop_bit 8 v), ucast v]"

definition putUint64 :: "64 word \<Rightarrow> byte list" where
  "putUint64 v =
     [ucast (drop_bit 56 v), ucast (drop_bit 48 v), ucast (drop_bit 40 v), ucast (drop_bit 32 v),
      ucast (drop_bit 24 v), ucast (drop_bit 16 v), ucast (drop_bit 8 v), ucast v]"

definition sha1Pad :: "byte list \<Rightarrow> byte list" where
  "sha1Pad m =
     (let l = length m; z = (55 + 64 - l mod 64) mod 64
      in m @ [0x80] @ replicate z 0 @ putUint64 (of_nat (8 * l)))"

fun sha1Schedule :: "nat \<Rightarrow> u32 list \<Rightarrow> u32 list" where
  "sha1Schedule 0 ws = ws"
| "sha1Schedule (Suc n) ws =
     (let t = length ws
      in sha1Schedule n
           (ws @ [rotl 1 (ws ! (t - 3) XOR ws ! (t - 8) XOR ws ! (t - 14) XOR ws ! (t - 16))]))"

type_synonym sha1State = "u32 \<times> u32 \<times> u32 \<times> u32 \<times> u32"

definition sha1Round :: "sha1State \<Rightarrow> nat \<times> u32 \<Rightarrow> sha1State" where
  "sha1Round s tw =
     (case s of (a, b, c, d, e) \<Rightarrow>
      case tw of (t, wt) \<Rightarrow>
        (let f = (if t < 20 then (b AND c) OR (NOT b AND d)
                  else if t < 40 then b XOR c XOR d
                  else if t < 60 then (b AND c) OR (b AND d) OR (c AND d)
                  else b XOR c XOR d);
             k = (if t < 20 then 0x5A827999
                  else if t < 40 then 0x6ED9EBA1
                  else if t < 60 then 0x8F1BBCDC
                  else 0xCA62C1D6)
         in (rotl 5 a + f + e + k + wt, a, rotl 30 b, c, d)))"

definition sha1Block :: "sha1State \<Rightarrow> byte list \<Rightarrow> sha1State" where
  "sha1Block h bl =
     (let ws = sha1Schedule 64 (map be32 (chunks 4 bl)) in
      case h of (h0, h1, h2, h3, h4) \<Rightarrow>
      case foldl sha1Round h (zip [0..<80] ws) of (a, b, c, d, e) \<Rightarrow>
        (h0 + a, h1 + b, h2 + c, h3 + d, h4 + e))"

definition sha1Sum :: "string \<Rightarrow> byte list" where
  "sha1Sum key =
     (case foldl sha1Block (0x67452301, 0xEFCDAB89, 0x98BADCFE, 0x10325476, 0xC3D2E1F0)
             (chunks 64 (sha1Pad (map (\<lambda>c. of_nat (of_char c)) key))) of
        (h0, h1, h2, h3, h4) \<Rightarrow> concat (map putUint32 [h0, h1, h2, h3, h4]))"

text \<open>\<^verbatim>\<open>fmt.Sprintf("%x", b)\<close> of a byte slice: two lower-case hexadecimal digits a byte.\<close>

definition hexDigits :: string where
  "hexDigits = ''0123456789abcdef''"

definition hexDigit :: "nat \<Rightarrow> char" where
  "hexDigit n = hexDigits ! n"

definition hexByte :: "byte \<Rightarrow> string" where
  "hexByte b = [hexDigit (unat b div 16), hexDigit (unat b mod 16)]"

definition hex :: "byte list \<Rightarrow> string" where
  "hex bs = concat (map hexByte bs)"

text \<open>
  \<^verbatim>\<open>cacheDir(rootdir, key)\<close> of \<^verbatim>\<open>cmd/golo/golo.go\<close>; \<^verbatim>\<open>hash[0:1]\<close> and \<^verbatim>\<open>hash[1:]\<close> are
  \<open>take 1\<close> and \<open>drop 1\<close>. (\<^verbatim>\<open>cmd/kodos/kodos.go\<close> has \<^verbatim>\<open>.kang\<close> for \<^verbatim>\<open>.golo\<close>.)
\<close>

definition cacheDir :: "string \<Rightarrow> string \<Rightarrow> string" where
  "cacheDir rootdir key =
     (let hash = sha1Sum key
      in pathJoin [rootdir, ''.golo'', ''cache'', hex (take 1 hash), hex (drop 1 hash)])"

section \<open>The override layer\<close>

text \<open>\<^verbatim>\<open>strings.HasPrefix(s, prefix)\<close>.\<close>

definition HasPrefix :: "string \<Rightarrow> string \<Rightarrow> bool" where
  "HasPrefix s prefix = (length prefix \<le> length s \<and> take (length prefix) s = prefix)"

text \<open>
  \<^verbatim>\<open>register(rootdir, prefix, kind, arg, next)\<close>. The function it returns ends the process
  after \<^verbatim>\<open>os.Stat\<close> only on an error that \<^verbatim>\<open>os.IsNotExist\<close> accepts.
\<close>

definition register ::
    "world \<Rightarrow> string \<Rightarrow> string \<Rightarrow> string \<Rightarrow> string \<Rightarrow> (string \<Rightarrow> string + package) \<Rightarrow>
     string \<Rightarrow> string + package" where
  "register w rootdir prefix kind arg fallback =
     (let dir = cacheDir rootdir (prefix @ kind @ ''='' @ arg) in
      (\<lambda>path.
         if \<not> HasPrefix path prefix then fallback path
         else
           (let dir = pathJoin [dir, path] in
            case Stat w dir of
              None \<Rightarrow> importPath w path dir
            | Some err \<Rightarrow>
                if IsNotExist err then Inl (check (Error err))
                else importPath w path dir)))"

section \<open>The source tree scanner\<close>

text \<open>
  The directory tree under the scanned directory, as \<^verbatim>\<open>os.Open\<close> and \<^verbatim>\<open>Readdir(-1)\<close>
  report it: a directory that lists its entries (name and entry, in the order of the
  listing), or an entry that cannot be listed (not a directory, or a directory whose
  \<^verbatim>\<open>Open\<close> or \<^verbatim>\<open>Readdir\<close> fails), with what \<^verbatim>\<open>fi.IsDir()\<close> says of it and the error a
  listing gives.
\<close>

datatype node =
    Unlistable bool string
  | Directory "(string \<times> node) list"

fun IsDir :: "node \<Rightarrow> bool" where
  "IsDir (Unlistable d err) = d"
| "IsDir (Directory files) = True"

definition ignored :: "string \<Rightarrow> bool" where
  "ignored name =
     (HasPrefix name ''_'' \<or> HasPrefix name ''.'' \<or> name = ''testdata'' \<or> name = ''vendor'')"

text \<open>
  \<^verbatim>\<open>loadSources(prefix, dir)\<close>; \<open>rangeFiles\<close> is its loop over \<^verbatim>\<open>files\<close>, with the slice \<^verbatim>\<open>srcs\<close>
  as its accumulator \<open>acc\<close>. The tree is what the file system holds at \<^verbatim>\<open>dir\<close>.
\<close>

fun loadSources :: "world \<Rightarrow> string \<Rightarrow> string \<Rightarrow> node \<Rightarrow> string + package list"
  and rangeFiles ::
    "world \<Rightarrow> string \<Rightarrow> string \<Rightarrow> (string \<times> node) list \<Rightarrow> package list \<Rightarrow> string + package list"
  where
  "loadSources w prefix dir (Unlistable d err) = Inl (check err)"
| "loadSources w prefix dir (Directory files) =
     (case rangeFiles w prefix dir files [] of
        Inl e \<Rightarrow> Inl e
      | Inr acc \<Rightarrow>
          (case ImportDir w dir of
             Inr pkg \<Rightarrow> Inr (acc @ [pkg\<lparr>ImportPath := prefix\<rparr>])
           | Inl (NoGoError m) \<Rightarrow> Inr acc
           | Inl (OtherError m) \<Rightarrow> Inl (check m)))"
| "rangeFiles w prefix dir [] acc = Inr acc"
| "rangeFiles w prefix dir ((name, fi) # files) acc =
     (if ignored name then rangeFiles w prefix dir files acc
      else if IsDir fi then
        (case loadSources w (pathJoin [prefix, name]) (pathJoin [dir, name]) fi of
           Inl e \<Rightarrow> Inl e
         | Inr sub \<Rightarrow> rangeFiles w prefix dir files (acc @ sub))
      else rangeFiles w prefix dir files acc)"

section \<open>Notions for the statements about the resolver\<close>

text \<open>
  The identifiers a state of the resolver holds as seen.
\<close>

definition marked :: "resolver \<Rightarrow> string set" where
  "marked st = {k. isSeen (seen st) k}"

text \<open>
  What a returning walk has done between two states: it appended the packages \<open>new\<close>, each
  loaded by \<open>load\<close> under its own identifier, with identifiers that are pairwise different
  and were not seen before; it marked exactly these identifiers; and every import of a
  package it appended is seen at the end.
\<close>

definition added :: "world \<Rightarrow> string \<Rightarrow> resolver \<Rightarrow> resolver \<Rightarrow> package list \<Rightarrow> bool" where
  "added w rootdir st st' new =
     (srcs st' = srcs st @ new \<and>
      distinct (map ImportPath new) \<and>
      marked st' = marked st \<union> set (map ImportPath new) \<and>
      set (map ImportPath new) \<inter> marked st = {} \<and>
      (\<forall>p \<in> set new. load w rootdir (ImportPath p) = Inr p \<and> set (Imports p) \<subseteq> marked st'))"

definition extends :: "world \<Rightarrow> string \<Rightarrow> resolver \<Rightarrow> resolver \<Rightarrow> bool" where
  "extends w rootdir st st' = (\<exists>new. added w rootdir st st' new)"

text \<open>
  The outcome of a walk that returns: ending the process, or a state that extends the
  one it started from and holds the walked identifier as seen.
\<close>

definition walkPost :: "world \<Rightarrow> string \<Rightarrow> string \<Rightarrow> resolver \<Rightarrow> string + resolver \<Rightarrow> bool" where
  "walkPost w rootdir path st y =
     (case y of Inl e \<Rightarrow> True | Inr st' \<Rightarrow> extends w rootdir st st' \<and> path \<in> marked st')"

text \<open>
  A set of identifiers that is closed under the imports of the packages \<open>load\<close> finds
  for them: the vertices of an import graph.
\<close>

definition importsClosed :: "world \<Rightarrow> string \<Rightarrow> string set \<Rightarrow> bool" where
  "importsClosed w rootdir U =
     (\<forall>p \<in> U. case load w rootdir p of Inl e \<Rightarrow> True | Inr pkg \<Rightarrow> set (Imports pkg) \<subseteq> U)"

section \<open>Notions for the statements about the scanner\<close>

text \<open>
  The tree without the entries the scanner ignores, at every level.
\<close>

fun prune :: "node \<Rightarrow> node"
  and pruneFiles :: "(string \<times> node) list \<Rightarrow> (string \<times> node) list" where
  "prune (Unlistable d err) = Unlistable d err"
| "prune (Directory files) = Directory (pruneFiles files)"
| "pruneFiles [] = []"
| "pruneFiles ((name, fi) # files) =
     (if ignored name then pruneFiles files else (name, prune fi) # pruneFiles files)"

text \<open>
  \<open>atPath t ns t'\<close>: following the entry names \<open>ns\<close> from \<open>t\<close> through directories that
  list their entries leads to \<open>t'\<close>.
\<close>

fun atPath :: "node \<Rightarrow> string list \<Rightarrow> node \<Rightarrow> bool" where
  "atPath t [] t' = (t' = t)"
| "atPath (Unlistable d err) (n # ns) t' = False"
| "atPath (Directory files) (n # ns) t' = (\<exists>(m, c) \<in> set files. m = n \<and> atPath c ns t')"

text \<open>
  The prefix, or the directory, the scanner has reached after the entry names \<open>ns\<close>:
  each recursive call joins the name of the subdirectory to both.
\<close>

definition descend :: "string \<Rightarrow> string list \<Rightarrow> string" where
  "descend base ns = foldl (\<lambda>a n. pathJoin [a, n]) base ns"

text \<open>
  A descriptor the scanner emits for a directory of the tree: the directory is reached
  through names that are not ignored, \<^verbatim>\<open>build.ImportDir\<close> loads it, and the descriptor
  is what it loaded with the prefix the scanner has reached as its \<open>ImportPath\<close>.
\<close>

definition scanned :: "world \<Rightarrow> string \<Rightarrow> string \<Rightarrow> node \<Rightarrow> package \<Rightarrow> bool" where
  "scanned w prefix dir t q =
     (\<exists>ns files pkg. (\<forall>n \<in> set ns. \<not> ignored n) \<and> atPath t ns (Directory files) \<and>
        ImportDir w (descend dir ns) = Inr pkg \<and> q = pkg\<lparr>ImportPath := descend prefix ns\<rparr>)"

section \<open>Notions for the statements about paths\<close>

text \<open>
  A path element that \<^verbatim>\<open>Clean\<close> keeps as it is: not empty, not \<^verbatim>\<open>.\<close>, not \<^verbatim>\<open>..\<close>, and
  without a slash.
\<close>

definition plainName :: "string \<Rightarrow> bool" where
  "plainName e = (e \<noteq> [] \<and> e \<noteq> ''.'' \<and> e \<noteq> ''..'' \<and> CHR ''/'' \<notin> set e)"

section \<open>Example file systems\<close>

text \<open>
  A file system with the standard library packages \<^verbatim>\<open>fmt\<close>, \<^verbatim>\<open>io\<close> and \<^verbatim>\<open>both\<close> under
  \<^verbatim>\<open>/go/src\<close>, and the vendored packages \<^verbatim>\<open>both\<close>, \<^verbatim>\<open>dep\<close> and \<^verbatim>\<open>cyc\<close> under
  \<^verbatim>\<open>/proj/vendor\<close>; \<^verbatim>\<open>dep\<close> and \<^verbatim>\<open>cyc\<close> import each other and both import \<^verbatim>\<open>fmt\<close>.
  \<^verbatim>\<open>build.ImportDir\<close> gives a directory outside \<^verbatim>\<open>GOROOT\<close> the import path \<^verbatim>\<open>.\<close>.
\<close>

definition demoDisk :: "(string \<times> package) list" where
  "demoDisk =
     [(''/go/src/fmt'', \<lparr>Dir = ''/go/src/fmt'', Name = ''fmt'', ImportPath = ''fmt'', Imports = [''io'']\<rparr>),
      (''/go/src/io'', \<lparr>Dir = ''/go/src/io'', Name = ''io'', ImportPath = ''io'', Imports = []\<rparr>),
      (''/go/src/both'', \<lparr>Dir = ''/go/src/both'', Name = ''both'', ImportPath = ''both'', Imports = []\<rparr>),
      (''/proj/vendor/both'', \<lparr>Dir = ''/proj/vendor/both'', Name = ''both'', ImportPath = ''.'', Imports = []\<rparr>),
      (''/proj/vendor/dep'', \<lparr>Dir = ''/proj/vendor/dep'', Name = ''dep'', ImportPath = ''.'', Imports = [''fmt'', ''cyc'']\<rparr>),
      (''/proj/vendor/cyc'', \<lparr>Dir = ''/proj/vendor/cyc'', Name = ''cyc'', ImportPath = ''.'', Imports = [''dep'', ''both'', ''fmt'']\<rparr>)]"

definition demoWorld :: world where
  "demoWorld =
     \<lparr>GOROOT = ''/go'',
      Stat = (\<lambda>d. case map_of demoDisk d of
                     None \<Rightarrow> Some (OsError True (''stat '' @ d @ '': no such file or directory''))
                   | Some p \<Rightarrow> None),
      ImportDir = (\<lambda>d. case map_of demoDisk d of
                     None \<Rightarrow> Inl (OtherError (''open '' @ d @ '': no such file or directory''))
                   | Some p \<Rightarrow> Inr p)\<rparr>"

definition demoApp :: package where
  "demoApp = \<lparr>Dir = ''/proj'', Name = ''main'', ImportPath = ''example.com/app'', Imports = [''dep'', ''cyc'']\<rparr>"

definition demoLib :: package where
  "demoLib = \<lparr>Dir = ''/proj/lib'', Name = ''lib'', ImportPath = ''example.com/app/lib'', Imports = [''both'']\<rparr>"

definition demoOut :: "package list" where
  "demoOut =
     [demoApp,
      \<lparr>Dir = ''/proj/vendor/dep'', Name = ''dep'', ImportPath = ''dep'', Imports = [''fmt'', ''cyc'']\<rparr>,
      \<lparr>Dir = ''/go/src/fmt'', Name = ''fmt'', ImportPath = ''fmt'', Imports = [''io'']\<rparr>,
      \<lparr>Dir = ''/go/src/io'', Name = ''io'', ImportPath = ''io'', Imports = []\<rparr>,
      \<lparr>Dir = ''/proj/vendor/cyc'', Name = ''cyc'', ImportPath = ''cyc'', Imports = [''dep'', ''both'', ''fmt'']\<rparr>,
      \<lparr>Dir = ''/go/src/both'', Name = ''both'', ImportPath = ''both'', Imports = []\<rparr>]"

definition demoIds :: "string set" where
  "demoIds = {''dep'', ''cyc'', ''fmt'', ''io'', ''both''}"

text \<open>
  A file system that holds one package, in the cache directory of the prefix
  \<^verbatim>\<open>example.com/foo\<close> pinned to \<^verbatim>\<open>v1\<close>.
\<close>

definition pinDir :: string where
  "pinDir = pathJoin [cacheDir ''/proj'' (''example.com/foo'' @ ''pin'' @ ''='' @ ''v1''), ''example.com/foo/bar'']"

definition pinPkg :: package where
  "pinPkg = \<lparr>Dir = pinDir, Name = ''bar'', ImportPath = ''.'', Imports = [''fmt'']\<rparr>"

definition pinWorld :: world where
  "pinWorld =
     \<lparr>GOROOT = ''/go'',
      Stat = (\<lambda>d. if d = pinDir then None
                   else Some (OsError True (''stat '' @ d @ '': no such file or directory''))),
      ImportDir = (\<lambda>d. if d = pinDir then Inr pinPkg
                   else Inl (OtherError (''open '' @ d @ '': no such file or directory'')))\<rparr>"

text \<open>
  A file system where \<^verbatim>\<open>os.Stat\<close> finds nothing, and one where every \<^verbatim>\<open>os.Stat\<close> is
  refused for another reason.
\<close>

definition emptyWorld :: world where
  "emptyWorld =
     \<lparr>GOROOT = ''/go'',
      Stat = (\<lambda>d. Some (OsError True (''stat '' @ d @ '': no such file or directory''))),
      ImportDir = (\<lambda>d. Inl (OtherError (''open '' @ d @ '': no such file or directory'')))\<rparr>"

definition deniedWorld :: world where
  "deniedWorld =
     \<lparr>GOROOT = ''/go'',
      Stat = (\<lambda>d. Some (OsError False (''stat '' @ d @ '': permission denied''))),
      ImportDir = (\<lambda>d. Inl (OtherError (''open '' @ d @ '': permission denied'')))\<rparr>"

text \<open>
  A project at \<^verbatim>\<open>/proj\<close> with the packages \<^verbatim>\<open>main\<close>, \<^verbatim>\<open>a\<close> and \<^verbatim>\<open>a/b\<close>, a directory
  \<^verbatim>\<open>docs\<close> without Go source, and source under \<^verbatim>\<open>_ignored\<close>, \<^verbatim>\<open>testdata\<close>, \<^verbatim>\<open>a/testdata\<close>
  and \<^verbatim>\<open>vendor\<close>; \<^verbatim>\<open>.git\<close> cannot be opened. In \<open>brokenWorld\<close> the directory \<^verbatim>\<open>a/b\<close> holds
  two packages, which \<^verbatim>\<open>build.ImportDir\<close> refuses.
\<close>

definition notDir :: node where
  "notDir = Unlistable False ''readdirent: not a directory''"

definition scanTree :: node where
  "scanTree =
     Directory
       [(''.git'', Unlistable True ''open /proj/.git: permission denied''),
        (''README.md'', notDir),
        (''_ignored'', Directory [(''x.go'', notDir)]),
        (''a'', Directory
           [(''a.go'', notDir),
            (''b'', Directory [(''b.go'', notDir)]),
            (''testdata'', Directory [(''t.go'', notDir)])]),
        (''docs'', Directory [(''index.md'', notDir)]),
        (''main.go'', notDir),
        (''testdata'', Directory [(''fixture'', Directory [(''f.go'', notDir)])]),
        (''vendor'', Directory [(''dep'', Directory [(''dep.go'', notDir)])])]"

definition scanDisk :: "(string \<times> package) list" where
  "scanDisk =
     [(''/proj'', \<lparr>Dir = ''/proj'', Name = ''main'', ImportPath = ''.'', Imports = [''example.com/app/a'']\<rparr>),
      (''/proj/a'', \<lparr>Dir = ''/proj/a'', Name = ''a'', ImportPath = ''.'', Imports = [''example.com/app/a/b'', ''fmt'']\<rparr>),
      (''/proj/a/b'', \<lparr>Dir = ''/proj/a/b'', Name = ''b'', ImportPath = ''.'', Imports = []\<rparr>),
      (''/proj/_ignored'', \<lparr>Dir = ''/proj/_ignored'', Name = ''x'', ImportPath = ''.'', Imports = []\<rparr>),
      (''/proj/a/testdata'', \<lparr>Dir = ''/proj/a/testdata'', Name = ''t'', ImportPath = ''.'', Imports = []\<rparr>),
      (''/proj/testdata/fixture'', \<lparr>Dir = ''/proj/testdata/fixture'', Name = ''f'', ImportPath = ''.'', Imports = []\<rparr>),
      (''/proj/vendor/dep'', \<lparr>Dir = ''/proj/vendor/dep'', Name = ''dep'', ImportPath = ''.'', Imports = []\<rparr>)]"

definition scanWorld :: world where
  "scanWorld =
     \<lparr>GOROOT = ''/go'',
      Stat = (\<lambda>d. None),
      ImportDir = (\<lambda>d. case map_of scanDisk d of
                     None \<Rightarrow> Inl (NoGoError (''no buildable Go source files in '' @ d))
                   | Some p \<Rightarrow> Inr p)\<rparr>"

definition brokenWorld :: world where
  "brokenWorld =
     scanWorld\<lparr>ImportDir := (\<lambda>d. if d = ''/proj/a/b''
                                 then Inl (OtherError ''found packages b (b.go) and c (c.go) in /proj/a/b'')
                                 else ImportDir scanWorld d)\<rparr>"

definition scanOut :: "package list" where
  "scanOut =
     [\<lparr>Dir = ''/proj/a/b'', Name = ''b'', ImportPath = ''example.com/app/a/b'', Imports = []\<rparr>,
      \<lparr>Dir = ''/proj/a'', Name = ''a'', ImportPath = ''example.com/app/a'', Imports = [''example.com/app/a/b'', ''fmt'']\<rparr>,
      \<lparr>Dir = ''/proj'', Name = ''main'', ImportPath = ''example.com/app'', Imports = [''example.com/app/a'']\<rparr>]"

section \<open>Lemmas about the resolver\<close>

lemma importPath_ImportPath: "importPath w path dir = Inr p \<Longrightarrow> ImportPath p = path"
  by (auto simp: importPath_def split: sum.splits)

lemma load_ImportPath: "load w rootdir path = Inr p \<Longrightarrow> ImportPath p = path"
  by (auto simp: load_def Let_def split: option.splits dest: importPath_ImportPath)

lemma marked_update: "marked (st\<lparr>seen := (seen st)(path \<mapsto> True)\<rparr>) = insert path (marked st)"
  by (auto simp: marked_def isSeen_def)

lemma marked_srcs_update [simp]: "marked (st\<lparr>srcs := xs\<rparr>) = marked st"
  by (simp add: marked_def)

lemma extends_refl: "extends w rootdir st st"
  unfolding extends_def added_def by (rule exI [of _ "[]"]) simp

lemma extends_mono: "extends w rootdir st st' \<Longrightarrow> marked st \<subseteq> marked st'"
  unfolding extends_def added_def by auto

lemma addedI:
  assumes "srcs st' = srcs st @ new" "distinct (map ImportPath new)"
    "marked st' = marked st \<union> set (map ImportPath new)"
    "set (map ImportPath new) \<inter> marked st = {}"
    "\<And>p. p \<in> set new \<Longrightarrow> load w rootdir (ImportPath p) = Inr p"
    "\<And>p. p \<in> set new \<Longrightarrow> set (Imports p) \<subseteq> marked st'"
  shows "added w rootdir st st' new"
  using assms unfolding added_def by blast

lemma addedD:
  assumes "added w rootdir st st' new"
  shows "srcs st' = srcs st @ new" "distinct (map ImportPath new)"
    "marked st' = marked st \<union> set (map ImportPath new)"
    "set (map ImportPath new) \<inter> marked st = {}"
    "\<And>p. p \<in> set new \<Longrightarrow> load w rootdir (ImportPath p) = Inr p"
    "\<And>p. p \<in> set new \<Longrightarrow> set (Imports p) \<subseteq> marked st'"
  using assms unfolding added_def by blast+

lemma added_trans:
  assumes a: "added w rootdir st st' n1" and b: "added w rootdir st' st'' n2"
  shows "added w rootdir st st'' (n1 @ n2)"
proof (rule addedI)
  show "srcs st'' = srcs st @ n1 @ n2"
    using addedD(1) [OF a] addedD(1) [OF b] by simp
  have d: "set (map ImportPath n1) \<inter> set (map ImportPath n2) = {}"
    using addedD(3) [OF a] addedD(4) [OF b] by blast
  show "distinct (map ImportPath (n1 @ n2))"
    using addedD(2) [OF a] addedD(2) [OF b] d by simp
  show "marked st'' = marked st \<union> set (map ImportPath (n1 @ n2))"
    using addedD(3) [OF a] addedD(3) [OF b] by auto
  show "set (map ImportPath (n1 @ n2)) \<inter> marked st = {}"
    using addedD(4) [OF a] addedD(4) [OF b] addedD(3) [OF a] by auto
  have mono: "marked st' \<subseteq> marked st''"
    using addedD(3) [OF b] by blast
  fix p assume p: "p \<in> set (n1 @ n2)"
  show "load w rootdir (ImportPath p) = Inr p"
    using p addedD(5) [OF a] addedD(5) [OF b] by auto
  show "set (Imports p) \<subseteq> marked st''"
    using p addedD(6) [OF a] addedD(6) [OF b] mono by auto
qed

lemma extends_trans:
  assumes "extends w rootdir st st'" and "extends w rootdir st' st''"
  shows "extends w rootdir st st''"
  using assms unfolding extends_def by (blast intro: added_trans)

lemma forEach_Cons_Inr:
  assumes "forEach body (x # xs) s = Some (Inr s')"
  obtains s1 where "body x s = Some (Inr s1)" and "forEach body xs s1 = Some (Inr s')"
proof (cases "body x s")
  case None
  with assms show ?thesis by simp
next
  case (Some r)
  with assms show ?thesis by (cases r) (auto intro: that)
qed

lemma forEach_extends:
  assumes body: "\<And>x s s'. x \<in> set xs \<Longrightarrow> body x s = Some (Inr s') \<Longrightarrow>
                   extends w rootdir s s' \<and> G x \<subseteq> marked s'"
    and run: "forEach body xs s = Some (Inr s')"
  shows "extends w rootdir s s' \<and> (\<forall>x \<in> set xs. G x \<subseteq> marked s')"
  using body run
proof (induction xs arbitrary: s)
  case Nil
  then show ?case by (simp add: extends_refl)
next
  case (Cons x xs)
  from Cons.prems(2) obtain s1 where s1: "body x s = Some (Inr s1)"
    and rest: "forEach body xs s1 = Some (Inr s')"
    by (rule forEach_Cons_Inr)
  have e1: "extends w rootdir s s1" and g1: "G x \<subseteq> marked s1"
    using Cons.prems(1) [of x s s1] s1 by auto
  have IH: "extends w rootdir s1 s' \<and> (\<forall>x \<in> set xs. G x \<subseteq> marked s')"
  proof (rule Cons.IH [OF _ rest])
    fix y t t' assume "y \<in> set xs" "body y t = Some (Inr t')"
    then show "extends w rootdir t t' \<and> G y \<subseteq> marked t'"
      using Cons.prems(1) [of y t t'] by simp
  qed
  from IH have "marked s1 \<subseteq> marked s'" by (blast dest: extends_mono)
  with g1 have "G x \<subseteq> marked s'" by blast
  moreover have "extends w rootdir s s'" using e1 IH by (blast intro: extends_trans)
  ultimately show ?case using IH by simp
qed

lemma walk_step_extends:
  assumes unseen: "\<not> isSeen (seen st) path"
    and ld: "load w rootdir path = Inr pkg"
    and ext: "extends w rootdir (st\<lparr>seen := (seen st)(path \<mapsto> True), srcs := srcs st @ [pkg]\<rparr>) st'"
    and imps: "set (Imports pkg) \<subseteq> marked st'"
  shows "extends w rootdir st st' \<and> path \<in> marked st'"
proof -
  let ?st2 = "st\<lparr>seen := (seen st)(path \<mapsto> True), srcs := srcs st @ [pkg]\<rparr>"
  from ext obtain n2 where a: "added w rootdir ?st2 st' n2" by (auto simp: extends_def)
  have ip: "ImportPath pkg = path" using ld by (rule load_ImportPath)
  have m2: "marked ?st2 = insert path (marked st)"
    using marked_update [of st path] by (simp add: marked_def)
  have nm: "path \<notin> marked st" using unseen by (simp add: marked_def)
  have "added w rootdir st st' (pkg # n2)"
  proof (rule addedI)
    show "srcs st' = srcs st @ pkg # n2" using addedD(1) [OF a] by simp
    show "distinct (map ImportPath (pkg # n2))"
      using addedD(2) [OF a] addedD(4) [OF a] m2 ip by auto
    show "marked st' = marked st \<union> set (map ImportPath (pkg # n2))"
      using addedD(3) [OF a] m2 ip by auto
    show "set (map ImportPath (pkg # n2)) \<inter> marked st = {}"
      using addedD(4) [OF a] m2 ip nm by auto
    fix p assume p: "p \<in> set (pkg # n2)"
    show "load w rootdir (ImportPath p) = Inr p"
      using p addedD(5) [OF a] ld ip by auto
    show "set (Imports p) \<subseteq> marked st'"
      using p addedD(6) [OF a] imps by auto
  qed
  moreover have "path \<in> marked st'" using addedD(3) [OF a] m2 by auto
  ultimately show ?thesis by (auto simp: extends_def)
qed

lemma walk_walkPost:
  assumes run: "walk w rootdir path st = Some y"
  shows "walkPost w rootdir path st y"
proof (rule walk.raw_induct [where P = walkPost, OF _ run])
  fix walk' w rootdir path st y
  assume IH: "\<And>w rootdir path st y. walk' w rootdir path st = Some y \<Longrightarrow> walkPost w rootdir path st y"
    and eq: "(if isSeen (seen st) path then Some (Inr st)
              else let st1 = st\<lparr>seen := (seen st)(path \<mapsto> True)\<rparr>
                   in case load w rootdir path of
                        Inl e \<Rightarrow> Some (Inl e)
                      | Inr pkg \<Rightarrow> forEach (walk' w rootdir) (Imports pkg)
                                    (st1\<lparr>srcs := srcs st1 @ [pkg]\<rparr>)) = Some y"
  show "walkPost w rootdir path st y"
  proof (cases y)
    case (Inl e)
    then show ?thesis by (simp add: walkPost_def)
  next
    case (Inr st')
    show ?thesis
    proof (cases "isSeen (seen st) path")
      case True
      with eq Inr have "st' = st" by simp
      with True Inr show ?thesis by (simp add: walkPost_def extends_refl marked_def)
    next
      case False
      with eq Inr obtain pkg where ld: "load w rootdir path = Inr pkg"
        and run: "forEach (walk' w rootdir) (Imports pkg)
                    (st\<lparr>seen := (seen st)(path \<mapsto> True), srcs := srcs st @ [pkg]\<rparr>) = Some (Inr st')"
        by (auto simp: Let_def split: sum.splits)
      have "extends w rootdir (st\<lparr>seen := (seen st)(path \<mapsto> True), srcs := srcs st @ [pkg]\<rparr>) st'
            \<and> (\<forall>x \<in> set (Imports pkg). {x} \<subseteq> marked st')"
      proof (rule forEach_extends [OF _ run])
        fix x s s' assume "walk' w rootdir x s = Some (Inr s')"
        from IH [OF this] show "extends w rootdir s s' \<and> {x} \<subseteq> marked s'"
          by (simp add: walkPost_def)
      qed
      then show ?thesis
        using walk_step_extends [OF False ld] Inr by (auto simp: walkPost_def)
    qed
  qed
qed

lemma walk_extends:
  assumes "walk w rootdir path st = Some (Inr st')"
  shows "extends w rootdir st st' \<and> path \<in> marked st'"
  using walk_walkPost [OF assms] by (simp add: walkPost_def)

lemma forEach_returns:
  assumes body: "\<And>x s. x \<in> set xs \<Longrightarrow> R s \<Longrightarrow> \<exists>y. body x s = Some y"
    and keep: "\<And>x s s'. x \<in> set xs \<Longrightarrow> R s \<Longrightarrow> body x s = Some (Inr s') \<Longrightarrow> R s'"
    and start: "R s"
  shows "\<exists>y. forEach body xs s = Some y"
  using body keep start
proof (induction xs arbitrary: s)
  case Nil
  show ?case by simp
next
  case (Cons x xs)
  from Cons.prems(1) [of x s] Cons.prems(3) obtain r where r: "body x s = Some r" by auto
  show ?case
  proof (cases r)
    case (Inl e)
    with r show ?thesis by simp
  next
    case (Inr s1)
    with r Cons.prems(2) [of x s s1] Cons.prems(3) have "R s1" by simp
    have "\<exists>y. forEach body xs s1 = Some y"
    proof (rule Cons.IH [OF _ _ \<open>R s1\<close>])
      fix y t assume "y \<in> set xs" "R t"
      then show "\<exists>z. body y t = Some z" using Cons.prems(1) [of y t] by simp
    next
      fix y t t' assume "y \<in> set xs" "R t" "body y t = Some (Inr t')"
      then show "R t'" using Cons.prems(2) [of y t t'] by simp
    qed
    with r Inr show ?thesis by simp
  qed
qed

lemma unseen_card_less:
  assumes "finite U" "path \<in> U" "\<not> isSeen (seen st) path"
  shows "card (U - marked (st\<lparr>seen := (seen st)(path \<mapsto> True)\<rparr>)) < card (U - marked st)"
proof -
  have "U - insert path (marked st) \<subset> U - marked st"
    using assms(2,3) by (auto simp: marked_def)
  then show ?thesis
    using assms(1) by (simp add: marked_update psubset_card_mono)
qed

lemma walk_returns:
  assumes fin: "finite U" and cl: "importsClosed w rootdir U"
  shows "path \<in> U \<Longrightarrow> \<exists>y. walk w rootdir path st = Some y"
proof (induction "card (U - marked st)" arbitrary: path st rule: less_induct)
  case less
  show ?case
  proof (cases "isSeen (seen st) path")
    case True
    then show ?thesis by (subst walk.simps) simp
  next
    case False
    show ?thesis
    proof (cases "load w rootdir path")
      case (Inl e)
      with False show ?thesis by (subst walk.simps) simp
    next
      case (Inr pkg)
      let ?st2 = "st\<lparr>seen := (seen st)(path \<mapsto> True), srcs := srcs st @ [pkg]\<rparr>"
      have lt: "card (U - marked ?st2) < card (U - marked st)"
        using unseen_card_less [OF fin less.prems False] by (simp add: marked_def)
      have "case load w rootdir path of Inl e \<Rightarrow> True | Inr pkg \<Rightarrow> set (Imports pkg) \<subseteq> U"
        using cl less.prems unfolding importsClosed_def by (rule bspec)
      with Inr have sub: "set (Imports pkg) \<subseteq> U" by simp
      have "\<exists>y. forEach (walk w rootdir) (Imports pkg) ?st2 = Some y"
      proof (rule forEach_returns [where R = "\<lambda>s. marked ?st2 \<subseteq> marked s"])
        fix x s assume x: "x \<in> set (Imports pkg)" and s: "marked ?st2 \<subseteq> marked s"
        have "U - marked s \<subseteq> U - marked ?st2" using s by blast
        then have "card (U - marked s) \<le> card (U - marked ?st2)"
          using fin by (simp add: card_mono)
        with lt have "card (U - marked s) < card (U - marked st)" by simp
        moreover have "x \<in> U" using x sub by blast
        ultimately show "\<exists>y. walk w rootdir x s = Some y" by (rule less.hyps)
      next
        fix x s s' assume s: "marked ?st2 \<subseteq> marked s" and "walk w rootdir x s = Some (Inr s')"
        then have "marked s \<subseteq> marked s'" by (blast dest: walk_extends extends_mono)
        with s show "marked ?st2 \<subseteq> marked s'" by blast
      qed simp
      with False Inr show ?thesis by (subst walk.simps) (simp add: Let_def)
    qed
  qed
qed

lemma loadDependencies_returns:
  assumes fin: "finite U" and cl: "importsClosed w rootdir U"
    and roots: "\<forall>src \<in> set srcs0. set (Imports src) \<subseteq> U"
  shows "\<exists>y. loadDependencies w rootdir srcs0 = Some y"
proof -
  have "\<exists>y. forEach (\<lambda>src. forEach (walk w rootdir) (Imports src)) srcs0
               \<lparr>seen = markAll srcs0, srcs = srcs0\<rparr> = Some y"
  proof (rule forEach_returns [where R = "\<lambda>s. True"])
    fix src s assume src: "src \<in> set srcs0"
    show "\<exists>y. forEach (walk w rootdir) (Imports src) s = Some y"
    proof (rule forEach_returns [where R = "\<lambda>s. True"])
      fix x t assume "x \<in> set (Imports src)"
      with src roots have "x \<in> U" by blast
      then show "\<exists>y. walk w rootdir x t = Some y" by (rule walk_returns [OF fin cl])
    qed simp_all
  qed simp_all
  then obtain y where "forEach (\<lambda>src. forEach (walk w rootdir) (Imports src)) srcs0
               \<lparr>seen = markAll srcs0, srcs = srcs0\<rparr> = Some y" by blast
  then show ?thesis
    by (cases y) (simp_all add: loadDependencies_def)
qed

lemma isSeen_foldl_mark:
  "isSeen (foldl (\<lambda>m src. m(ImportPath src \<mapsto> True)) m0 xs) k =
     (isSeen m0 k \<or> k \<in> ImportPath ` set xs)"
  by (induction xs arbitrary: m0) (auto simp: isSeen_def)

lemma isSeen_markAll: "isSeen (markAll srcs0) k = (k \<in> ImportPath ` set srcs0)"
  by (simp add: markAll_def isSeen_foldl_mark) (simp add: isSeen_def)

lemma walk_seen: "isSeen (seen st) path \<Longrightarrow> walk w rootdir path st = Some (Inr st)"
  by (subst walk.simps) simp

lemma length_filter_distinct:
  "distinct (map f xs) \<Longrightarrow> i \<in> f ` set xs \<Longrightarrow> length (filter (\<lambda>q. f q = i) xs) = 1"
proof (induction xs)
  case Nil
  then show ?case by simp
next
  case (Cons x xs)
  show ?case
  proof (cases "f x = i")
    case True
    from Cons.prems(1) have "f x \<notin> f ` set xs" by simp
    then have "\<forall>q \<in> set xs. f q \<noteq> f x" by (metis imageI)
    with True have "filter (\<lambda>q. f q = i) xs = []"
      by (simp add: filter_empty_conv)
    with True show ?thesis by simp
  next
    case False
    with Cons show ?thesis by auto
  qed
qed

lemma loadDependencies_added:
  assumes "loadDependencies w rootdir srcs0 = Some (Inr out)"
  shows "\<exists>stf new. added w rootdir \<lparr>seen = markAll srcs0, srcs = srcs0\<rparr> stf new \<and>
           out = srcs0 @ new \<and> (\<forall>src \<in> set srcs0. set (Imports src) \<subseteq> marked stf)"
proof -
  let ?st0 = "\<lparr>seen = markAll srcs0, srcs = srcs0\<rparr>"
  from assms obtain stf where
    run: "forEach (\<lambda>src. forEach (walk w rootdir) (Imports src)) srcs0 ?st0 = Some (Inr stf)"
    and out: "out = srcs stf"
    by (auto simp: loadDependencies_def split: option.splits sum.splits)
  have "extends w rootdir ?st0 stf \<and> (\<forall>src \<in> set srcs0. set (Imports src) \<subseteq> marked stf)"
  proof (rule forEach_extends [OF _ run])
    fix src :: package and s s' assume inner: "forEach (walk w rootdir) (Imports src) s = Some (Inr s')"
    have "extends w rootdir s s' \<and> (\<forall>x \<in> set (Imports src). {x} \<subseteq> marked s')"
    proof (rule forEach_extends [OF _ inner])
      fix x t t' assume "walk w rootdir x t = Some (Inr t')"
      then show "extends w rootdir t t' \<and> {x} \<subseteq> marked t'"
        using walk_extends by simp
    qed
    then show "extends w rootdir s s' \<and> set (Imports src) \<subseteq> marked s'" by blast
  qed
  then obtain new where a: "added w rootdir ?st0 stf new"
    and imps: "\<forall>src \<in> set srcs0. set (Imports src) \<subseteq> marked stf"
    by (auto simp: extends_def)
  from addedD(1) [OF a] out have "out = srcs0 @ new" by simp
  with a imps show ?thesis by blast
qed

lemma marked_initial: "marked \<lparr>seen = markAll srcs0, srcs = srcs0\<rparr> = ImportPath ` set srcs0"
  by (auto simp: marked_def isSeen_markAll)

lemma load_cases:
  assumes "load w rootdir path = Inr p"
  shows "(Stat w (pathJoin [GOROOT w, ''src'', path]) = None \<longrightarrow>
            importPath w path (pathJoin [GOROOT w, ''src'', path]) = Inr p) \<and>
         (Stat w (pathJoin [GOROOT w, ''src'', path]) \<noteq> None \<longrightarrow>
            Stat w (pathJoin [rootdir, ''vendor'', path]) = None \<and>
            importPath w path (pathJoin [rootdir, ''vendor'', path]) = Inr p)"
  using assms by (auto simp: load_def Let_def split: option.splits)

lemma demo_run: "loadDependencies demoWorld ''/proj'' [demoApp] = Some (Inr demoOut)"
  by code_simp

lemma demo_closed: "importsClosed demoWorld ''/proj'' demoIds"
  unfolding importsClosed_def demoIds_def by code_simp

section \<open>Lemmas about the scanner\<close>

lemma descend_Nil [simp]: "descend base [] = base"
  by (simp add: descend_def)

lemma descend_Cons [simp]: "descend base (n # ns) = descend (pathJoin [base, n]) ns"
  by (simp add: descend_def)

lemma descend_append: "descend base (ns @ ms) = descend (descend base ns) ms"
  by (simp add: descend_def)

lemma rangeFiles_acc:
  "rangeFiles w prefix dir files acc =
     (case rangeFiles w prefix dir files [] of Inl e \<Rightarrow> Inl e | Inr xs \<Rightarrow> Inr (acc @ xs))"
proof (induction files arbitrary: acc)
  case Nil
  show ?case by simp
next
  case (Cons f files)
  obtain name fi where f: "f = (name, fi)" by (cases f)
  show ?case
  proof (cases "\<not> ignored name \<and> IsDir fi")
    case False
    then show ?thesis using f Cons.IH [of acc] by auto
  next
    case True
    show ?thesis
    proof (cases "loadSources w (pathJoin [prefix, name]) (pathJoin [dir, name]) fi")
      case (Inl e)
      with True f show ?thesis by simp
    next
      case (Inr sub)
      with True f Cons.IH [of "acc @ sub"] Cons.IH [of "sub"] show ?thesis
        by (simp split: sum.splits)
    qed
  qed
qed

lemma IsDir_prune [simp]: "IsDir (prune t) = IsDir t"
  by (cases t) simp_all

lemma loadSources_prune:
  "loadSources w prefix dir (prune t) = loadSources w prefix dir t"
  "rangeFiles w prefix dir (pruneFiles files) acc = rangeFiles w prefix dir files acc"
proof (induction w prefix dir t and w prefix dir files acc rule: loadSources_rangeFiles.induct)
  case (1 w prefix dir d err)
  show ?case by simp
next
  case (2 w prefix dir files)
  then show ?case by simp
next
  case (3 w prefix dir acc)
  show ?case by simp
next
  case (4 w prefix dir name fi files acc)
  show ?case
  proof (cases "\<not> ignored name \<and> IsDir fi")
    case False
    then show ?thesis using 4(1,4) by auto
  next
    case True
    then show ?thesis using 4(2,3) by (simp split: sum.splits)
  qed
qed

lemma scanned_child:
  assumes "scanned w (pathJoin [prefix, name]) (pathJoin [dir, name]) fi q"
    and "(name, fi) \<in> set files" and "\<not> ignored name"
  shows "scanned w prefix dir (Directory files) q"
proof -
  from assms(1) obtain ns fs pkg where ns: "\<forall>n \<in> set ns. \<not> ignored n"
    and at: "atPath fi ns (Directory fs)"
    and imp: "ImportDir w (descend (pathJoin [dir, name]) ns) = Inr pkg"
    and q: "q = pkg\<lparr>ImportPath := descend (pathJoin [prefix, name]) ns\<rparr>"
    unfolding scanned_def by blast
  have "atPath (Directory files) (name # ns) (Directory fs)"
    using at assms(2) by auto
  moreover have "\<forall>n \<in> set (name # ns). \<not> ignored n" using ns assms(3) by simp
  ultimately show ?thesis
    unfolding scanned_def using imp q
    by (intro exI [of _ "name # ns"] exI [of _ fs] exI [of _ pkg]) simp
qed

lemma scanned_self:
  assumes "ImportDir w dir = Inr pkg"
  shows "scanned w prefix dir (Directory files) (pkg\<lparr>ImportPath := prefix\<rparr>)"
  unfolding scanned_def using assms
  by (intro exI [of _ "[]"] exI [of _ files] exI [of _ pkg]) simp

lemma loadSources_origin:
  "loadSources w prefix dir t = Inr out \<Longrightarrow> q \<in> set out \<Longrightarrow> scanned w prefix dir t q"
  "rangeFiles w prefix dir files acc = Inr out \<Longrightarrow> q \<in> set out \<Longrightarrow>
     q \<in> set acc \<or>
     (\<exists>name fi. (name, fi) \<in> set files \<and> \<not> ignored name \<and>
        scanned w (pathJoin [prefix, name]) (pathJoin [dir, name]) fi q)"
proof (induction w prefix dir t and w prefix dir files acc arbitrary: out and out
    rule: loadSources_rangeFiles.induct)
  case (1 w prefix dir d err)
  then show ?case by simp
next
  case (2 w prefix dir files)
  from 2(2) obtain kids where kids: "rangeFiles w prefix dir files [] = Inr kids"
    by (auto split: sum.splits)
  have fromkids: "scanned w prefix dir (Directory files) q" if "q \<in> set kids"
    using 2(1) [OF kids that] scanned_child by auto
  show ?case
  proof (cases "ImportDir w dir")
    case (Inr pkg)
    with 2(2) kids have "out = kids @ [pkg\<lparr>ImportPath := prefix\<rparr>]" by simp
    with 2(3) have "q \<in> set kids \<or> q = pkg\<lparr>ImportPath := prefix\<rparr>" by auto
    then show ?thesis using fromkids scanned_self [OF Inr] by blast
  next
    case (Inl err)
    with 2(2) kids have "out = kids" by (cases err) simp_all
    with 2(3) fromkids show ?thesis by simp
  qed
next
  case (3 w prefix dir acc)
  then show ?case by simp
next
  case (4 w prefix dir name fi files acc)
  show ?case
  proof (cases "ignored name")
    case True
    with 4(5) have "rangeFiles w prefix dir files acc = Inr out" by simp
    from 4(1) [OF True this 4(6)] show ?thesis by auto
  next
    case ni: False
    show ?thesis
    proof (cases "IsDir fi")
      case False
      with ni 4(5) have "rangeFiles w prefix dir files acc = Inr out" by simp
      from 4(4) [OF ni False this 4(6)] show ?thesis by auto
    next
      case True
      with ni 4(5) obtain sub where
        sub: "loadSources w (pathJoin [prefix, name]) (pathJoin [dir, name]) fi = Inr sub"
        and rest: "rangeFiles w prefix dir files (acc @ sub) = Inr out"
        by (auto split: sum.splits)
      from 4(3) [OF ni True sub rest 4(6)]
      consider "q \<in> set acc" | "q \<in> set sub"
        | "\<exists>name fi. (name, fi) \<in> set files \<and> \<not> ignored name \<and>
             scanned w (pathJoin [prefix, name]) (pathJoin [dir, name]) fi q"
        by auto
      then show ?thesis
      proof cases
        case 1
        then show ?thesis by simp
      next
        case 2
        from 4(2) [OF ni True sub 2] ni show ?thesis by auto
      next
        case 3
        then show ?thesis by auto
      qed
    qed
  qed
qed

lemma rangeFiles_Inr_acc:
  assumes "rangeFiles w prefix dir files acc = Inr out"
  obtains xs where "rangeFiles w prefix dir files [] = Inr xs" and "out = acc @ xs"
  using assms rangeFiles_acc [of w prefix dir files acc]
  by (cases "rangeFiles w prefix dir files []") auto

lemma child_segment:
  assumes "rangeFiles w prefix dir files acc = Inr out"
    and "(n, c) \<in> set files" and "\<not> ignored n" and "IsDir c"
  shows "\<exists>sub xs ys. loadSources w (pathJoin [prefix, n]) (pathJoin [dir, n]) c = Inr sub \<and>
           out = xs @ sub @ ys"
  using assms
proof (induction files arbitrary: acc)
  case Nil
  then show ?case by simp
next
  case (Cons f files)
  obtain name fi where f: "f = (name, fi)" by (cases f)
  show ?case
  proof (cases "\<not> ignored name \<and> IsDir fi")
    case False
    with Cons.prems f have "rangeFiles w prefix dir files acc = Inr out" and "(n, c) \<in> set files"
      by (auto split: if_splits)
    then show ?thesis using Cons.IH Cons.prems(3,4) by blast
  next
    case True
    with Cons.prems(1) f obtain sub where
      sub: "loadSources w (pathJoin [prefix, name]) (pathJoin [dir, name]) fi = Inr sub"
      and rest: "rangeFiles w prefix dir files (acc @ sub) = Inr out"
      by (auto split: sum.splits)
    show ?thesis
    proof (cases "(n, c) = (name, fi)")
      case True
      from rest obtain xs where "out = (acc @ sub) @ xs" by (rule rangeFiles_Inr_acc)
      with True sub show ?thesis by auto
    next
      case False
      with Cons.prems(2) f have "(n, c) \<in> set files" by auto
      with rest show ?thesis using Cons.IH Cons.prems(3,4) by blast
    qed
  qed
qed

lemma atPath_IsDir: "atPath c ns (Directory fb) \<Longrightarrow> IsDir c"
  by (cases c; cases ns) auto

lemma loadSources_Directory_Inr:
  assumes "loadSources w prefix dir (Directory files) = Inr out"
  shows "\<exists>kids own. rangeFiles w prefix dir files [] = Inr kids \<and> out = kids @ own \<and>
           (\<forall>pkg. ImportDir w dir = Inr pkg \<longrightarrow> own = [pkg\<lparr>ImportPath := prefix\<rparr>])"
proof -
  from assms obtain kids where kids: "rangeFiles w prefix dir files [] = Inr kids"
    by (auto split: sum.splits)
  show ?thesis
  proof (cases "ImportDir w dir")
    case (Inr pkg)
    with assms kids have "out = kids @ [pkg\<lparr>ImportPath := prefix\<rparr>]" by simp
    with kids Inr show ?thesis by simp
  next
    case (Inl err)
    with assms kids have "out = kids @ []" by (cases err) simp_all
    with kids Inl show ?thesis by simp
  qed
qed

lemma path_segment:
  assumes "loadSources w prefix dir t = Inr out"
    and "atPath t ns (Directory fb)" and "\<forall>n \<in> set ns. \<not> ignored n"
  shows "\<exists>sub xs ys. loadSources w (descend prefix ns) (descend dir ns) (Directory fb) = Inr sub \<and>
           out = xs @ sub @ ys"
  using assms
proof (induction ns arbitrary: t prefix dir out)
  case Nil
  then have "loadSources w prefix dir (Directory fb) = Inr out \<and> out = [] @ out @ []" by simp
  then show ?case unfolding descend_Nil by blast
next
  case (Cons n ns)
  from Cons.prems(2) obtain files where t: "t = Directory files" by (cases t) auto
  with Cons.prems(2) obtain c where c: "(n, c) \<in> set files" and at: "atPath c ns (Directory fb)"
    by auto
  from Cons.prems(1) t have "loadSources w prefix dir (Directory files) = Inr out" by simp
  from loadSources_Directory_Inr [OF this]
  obtain kids own where kids: "rangeFiles w prefix dir files [] = Inr kids"
    and out: "out = kids @ own"
    by blast
  from Cons.prems(3) have ni: "\<not> ignored n" and nis: "\<forall>n \<in> set ns. \<not> ignored n" by simp_all
  from child_segment [OF kids c ni atPath_IsDir [OF at]] obtain subc xs ys where
    subc: "loadSources w (pathJoin [prefix, n]) (pathJoin [dir, n]) c = Inr subc"
    and k: "kids = xs @ subc @ ys" by blast
  from Cons.IH [OF subc at nis] obtain sub xs' ys' where
    sub: "loadSources w (descend (pathJoin [prefix, n]) ns) (descend (pathJoin [dir, n]) ns) (Directory fb) = Inr sub"
    and s: "subc = xs' @ sub @ ys'" by blast
  have "out = (xs @ xs') @ sub @ (ys' @ ys @ own)" using out k s by simp
  with sub show ?case unfolding descend_Cons by blast
qed

lemma rangeFiles_child_fatal:
  assumes "(n, c) \<in> set files" and "\<not> ignored n" and "IsDir c"
    and "loadSources w (pathJoin [prefix, n]) (pathJoin [dir, n]) c = Inl e"
  shows "\<exists>e'. rangeFiles w prefix dir files acc = Inl e'"
  using assms(1)
proof (induction files arbitrary: acc)
  case Nil
  then show ?case by simp
next
  case (Cons f files)
  obtain name fi where f: "f = (name, fi)" by (cases f)
  show ?case
  proof (cases "(n, c) = (name, fi)")
    case True
    with assms(2,3,4) f show ?thesis by simp
  next
    case False
    with Cons.prems f have "(n, c) \<in> set files" by auto
    from Cons.IH [OF this] show ?thesis
      using f by (auto split: sum.splits)
  qed
qed

lemma loadSources_fatal_below:
  assumes "atPath t ns (Directory fb)" and "\<forall>n \<in> set ns. \<not> ignored n"
    and "ImportDir w (descend dir ns) = Inl (OtherError m)"
  shows "\<exists>e. loadSources w prefix dir t = Inl e"
  using assms
proof (induction ns arbitrary: t prefix dir)
  case Nil
  then have t: "t = Directory fb" and imp: "ImportDir w dir = Inl (OtherError m)" by simp_all
  show ?case unfolding t using imp by (cases "rangeFiles w prefix dir fb []") simp_all
next
  case (Cons n ns)
  from Cons.prems(1) obtain files where t: "t = Directory files" by (cases t) auto
  with Cons.prems(1) obtain c where c: "(n, c) \<in> set files" and at: "atPath c ns (Directory fb)"
    by auto
  from Cons.prems(2) have ni: "\<not> ignored n" and nis: "\<forall>n \<in> set ns. \<not> ignored n" by simp_all
  from Cons.prems(3) have "ImportDir w (descend (pathJoin [dir, n]) ns) = Inl (OtherError m)" by simp
  from Cons.IH [OF at nis this] obtain e where
    "loadSources w (pathJoin [prefix, n]) (pathJoin [dir, n]) c = Inl e" by blast
  from rangeFiles_child_fatal [OF c ni atPath_IsDir [OF at] this]
  obtain e' where "rangeFiles w prefix dir files [] = Inl e'" by blast
  then show ?case unfolding t by simp
qed

lemma scan_run: "loadSources scanWorld ''example.com/app'' ''/proj'' scanTree = Inr scanOut"
  by code_simp

lemma ignored_iff:
  "ignored name \<longleftrightarrow>
     (\<exists>rest. name = CHR ''_'' # rest) \<or> (\<exists>rest. name = CHR ''.'' # rest) \<or>
     name = ''testdata'' \<or> name = ''vendor''"
  by (cases name) (auto simp: ignored_def HasPrefix_def)

section \<open>Lemmas about paths and the digest\<close>

lemma splitSlash_not_Nil [simp]: "splitSlash s \<noteq> []"
  by (induction s) (auto split: list.splits)

lemma splitSlash_append: "splitSlash (a @ CHR ''/'' # b) = splitSlash a @ splitSlash b"
proof (induction a)
  case Nil
  show ?case by simp
next
  case (Cons c cs)
  show ?case
  proof (cases "c = CHR ''/''")
    case True
    with Cons show ?thesis by simp
  next
    case False
    obtain x xs where x: "splitSlash cs = x # xs" by (cases "splitSlash cs") auto
    with False Cons show ?thesis by simp
  qed
qed

lemma splitSlash_slashFree: "CHR ''/'' \<notin> set e \<Longrightarrow> splitSlash e = [e]"
  by (induction e) auto

lemma splitSlash_joinWith:
  "es \<noteq> [] \<Longrightarrow> splitSlash (joinWith ''/'' es) = concat (map splitSlash es)"
proof (induction es)
  case Nil
  then show ?case by simp
next
  case (Cons x es)
  show ?case
  proof (cases es)
    case Nil
    then show ?thesis by simp
  next
    case (Cons y ys)
    with Cons.IH have "splitSlash (joinWith ''/'' (y # ys)) = concat (map splitSlash (y # ys))"
      by simp
    with Cons show ?thesis
      using splitSlash_append [of x "joinWith ''/'' (y # ys)"] by simp
  qed
qed

lemma splitSlash_joinWith_plain:
  assumes "es \<noteq> []" and "\<forall>e \<in> set es. CHR ''/'' \<notin> set e"
  shows "splitSlash (joinWith ''/'' es) = es"
proof -
  have "concat (map splitSlash es) = es"
    using assms(2) by (induction es) (simp_all add: splitSlash_slashFree)
  with assms(1) show ?thesis by (simp add: splitSlash_joinWith)
qed

lemma splitSlash_elems: "e \<in> set (splitSlash s) \<Longrightarrow> CHR ''/'' \<notin> set e"
proof (induction s arbitrary: e)
  case Nil
  then show ?case by simp
next
  case (Cons c cs)
  obtain x xs where x: "splitSlash cs = x # xs" by (cases "splitSlash cs") auto
  show ?case
  proof (cases "c = CHR ''/''")
    case True
    with Cons show ?thesis by auto
  next
    case False
    with Cons.prems x have "e = c # x \<or> e \<in> set xs" by simp
    with Cons.IH x False show ?thesis by auto
  qed
qed

lemma plainNameD: "plainName e \<Longrightarrow> e \<noteq> [] \<and> CHR ''/'' \<notin> set e"
  by (simp add: plainName_def)

lemma cleanElem_plain: "plainName e \<Longrightarrow> cleanElem rooted out e = out @ [e]"
  by (simp add: cleanElem_def plainName_def)

lemma foldl_cleanElem_plain:
  "\<forall>e \<in> set es. plainName e \<Longrightarrow> foldl (cleanElem rooted) out es = out @ es"
  by (induction es arbitrary: out) (simp_all add: cleanElem_plain)

lemma cleanElem_slashFree:
  assumes "\<forall>x \<in> set out. x \<noteq> [] \<and> CHR ''/'' \<notin> set x" and "CHR ''/'' \<notin> set e"
  shows "\<forall>x \<in> set (cleanElem rooted out e). x \<noteq> [] \<and> CHR ''/'' \<notin> set x"
proof -
  have b: "\<forall>x \<in> set (butlast out). x \<noteq> [] \<and> CHR ''/'' \<notin> set x"
    using assms(1) by (blast dest: in_set_butlastD)
  have d: "\<forall>x \<in> set (out @ [''..'']). x \<noteq> [] \<and> CHR ''/'' \<notin> set x"
    using assms(1) by simp
  have e: "e \<noteq> [] \<Longrightarrow> \<forall>x \<in> set (out @ [e]). x \<noteq> [] \<and> CHR ''/'' \<notin> set x"
    using assms by simp
  show ?thesis
    unfolding cleanElem_def using assms(1) b d e by (simp only: split: if_splits) blast
qed

lemma foldl_cleanElem_slashFree:
  assumes "\<forall>x \<in> set out. x \<noteq> [] \<and> CHR ''/'' \<notin> set x" and "\<forall>e \<in> set es. CHR ''/'' \<notin> set e"
  shows "\<forall>x \<in> set (foldl (cleanElem rooted) out es). x \<noteq> [] \<and> CHR ''/'' \<notin> set x"
  using assms
proof (induction es arbitrary: out)
  case Nil
  then show ?case by simp
next
  case (Cons e es)
  from Cons.prems(2) have e: "CHR ''/'' \<notin> set e" and es: "\<forall>e \<in> set es. CHR ''/'' \<notin> set e"
    by simp_all
  have "\<forall>x \<in> set (cleanElem rooted out e). x \<noteq> [] \<and> CHR ''/'' \<notin> set x"
    using Cons.prems(1) e by (rule cleanElem_slashFree)
  from Cons.IH [OF this es] show ?case
    unfolding foldl_Cons .
qed

lemma joinWith_not_Nil: "\<exists>e \<in> set es. e \<noteq> [] \<Longrightarrow> joinWith sep es \<noteq> []"
  by (induction sep es rule: joinWith.induct) auto

lemma pathClean_plain_tail:
  assumes split: "splitSlash p = xs @ tl4" and plain: "\<forall>e \<in> set tl4. plainName e" and ne: "tl4 \<noteq> []"
  shows "pathClean p =
           (if p \<noteq> [] \<and> hd p = CHR ''/'' then ''/'' else []) @
           joinWith ''/'' (foldl (cleanElem (p \<noteq> [] \<and> hd p = CHR ''/'')) [] xs @ tl4)"
proof -
  define rooted where "rooted = (p \<noteq> [] \<and> hd p = CHR ''/'')"
  define out0 where "out0 = foldl (cleanElem rooted) [] xs"
  have out: "foldl (cleanElem rooted) [] (splitSlash p) = out0 @ tl4"
    using plain by (simp add: split out0_def foldl_cleanElem_plain)
  from ne obtain e where "e \<in> set tl4" by (cases tl4) auto
  with plain have "\<exists>e \<in> set (out0 @ tl4). e \<noteq> []" by (auto dest: plainNameD)
  then have "joinWith ''/'' (out0 @ tl4) \<noteq> []" by (rule joinWith_not_Nil)
  then have "pathClean p = (if rooted then ''/'' else []) @ joinWith ''/'' (out0 @ tl4)"
    by (simp add: pathClean_def Let_def out rooted_def [symmetric])
  then show ?thesis by (simp only: rooted_def out0_def)
qed

lemma splitSlash_pathClean_tail:
  assumes split: "splitSlash p = xs @ tl4" and plain: "\<forall>e \<in> set tl4. plainName e" and ne: "tl4 \<noteq> []"
  shows "\<exists>pre. splitSlash (pathClean p) = pre @ tl4"
proof -
  define rooted where "rooted = (p \<noteq> [] \<and> hd p = CHR ''/'')"
  define out0 where "out0 = foldl (cleanElem rooted) [] xs"
  have sf0: "\<forall>x \<in> set out0. x \<noteq> [] \<and> CHR ''/'' \<notin> set x"
    unfolding out0_def
  proof (rule foldl_cleanElem_slashFree)
    show "\<forall>x \<in> set []. x \<noteq> [] \<and> CHR ''/'' \<notin> set x" by simp
    show "\<forall>e \<in> set xs. CHR ''/'' \<notin> set e"
      using splitSlash_elems [of _ p] split by auto
  qed
  have sf: "\<forall>e \<in> set (out0 @ tl4). CHR ''/'' \<notin> set e"
    using sf0 plain by (auto dest: plainNameD)
  have sj: "splitSlash (joinWith ''/'' (out0 @ tl4)) = out0 @ tl4"
    using sf ne by (intro splitSlash_joinWith_plain) auto
  have pc: "pathClean p = (if rooted then ''/'' else []) @ joinWith ''/'' (out0 @ tl4)"
    using pathClean_plain_tail [OF assms] by (simp only: rooted_def out0_def)
  show ?thesis
  proof (cases rooted)
    case True
    with pc sj have "splitSlash (pathClean p) = ([] # out0) @ tl4" by simp
    then show ?thesis by blast
  next
    case False
    with pc sj have "splitSlash (pathClean p) = out0 @ tl4" by simp
    then show ?thesis by blast
  qed
qed

lemma pathJoin_plain_tail:
  assumes plain: "\<forall>e \<in> set tl4. plainName e" and ne: "tl4 \<noteq> []"
  shows "\<exists>p. pathJoin (rootdir # tl4) = pathClean p \<and>
           splitSlash p = (if rootdir = [] then [] else splitSlash rootdir) @ tl4 \<and>
           ((p \<noteq> [] \<and> hd p = CHR ''/'') = (rootdir \<noteq> [] \<and> hd rootdir = CHR ''/''))"
proof -
  have f: "filter (\<lambda>e. e \<noteq> []) tl4 = tl4"
    using plain by (auto simp: filter_id_conv dest: plainNameD)
  have sp: "concat (map splitSlash tl4) = tl4"
    using plain by (induction tl4) (auto simp: splitSlash_slashFree dest: plainNameD)
  obtain t ts where tl4: "tl4 = t # ts" using ne by (cases tl4) auto
  with plain have "t \<noteq> [] \<and> CHR ''/'' \<notin> set t" by (auto dest: plainNameD)
  then obtain c cs where t: "t = c # cs" and c: "c \<noteq> CHR ''/''" by (cases t) auto
  show ?thesis
  proof (cases "rootdir = []")
    case True
    have pj: "pathJoin (rootdir # tl4) = pathClean (joinWith ''/'' tl4)"
      using True ne by (simp add: pathJoin_def f)
    have s: "splitSlash (joinWith ''/'' tl4) = (if rootdir = [] then [] else splitSlash rootdir) @ tl4"
      using True ne sp by (simp add: splitSlash_joinWith)
    have "hd (joinWith ''/'' tl4) = c"
      unfolding tl4 t by (cases ts) simp_all
    with c True
    have r: "(joinWith ''/'' tl4 \<noteq> [] \<and> hd (joinWith ''/'' tl4) = CHR ''/'') =
             (rootdir \<noteq> [] \<and> hd rootdir = CHR ''/'')"
      by simp
    from pj s r show ?thesis by blast
  next
    case False
    have pj: "pathJoin (rootdir # tl4) = pathClean (joinWith ''/'' (rootdir # tl4))"
      using False by (simp add: pathJoin_def f)
    have s: "splitSlash (joinWith ''/'' (rootdir # tl4)) =
               (if rootdir = [] then [] else splitSlash rootdir) @ tl4"
      using False sp by (simp add: splitSlash_joinWith)
    have j: "joinWith ''/'' (rootdir # tl4) = rootdir @ ''/'' @ joinWith ''/'' tl4"
      unfolding tl4 by simp
    have r: "(joinWith ''/'' (rootdir # tl4) \<noteq> [] \<and> hd (joinWith ''/'' (rootdir # tl4)) = CHR ''/'') =
             (rootdir \<noteq> [] \<and> hd rootdir = CHR ''/'')"
      unfolding j using False by simp
    from pj s r show ?thesis by blast
  qed
qed

lemma splitSlash_pathJoin_tail:
  assumes plain: "\<forall>e \<in> set tl4. plainName e" and ne: "tl4 \<noteq> []"
  shows "\<exists>pre. splitSlash (pathJoin (rootdir # tl4)) = pre @ tl4"
proof -
  from pathJoin_plain_tail [OF assms, of rootdir] obtain p where
    pj: "pathJoin (rootdir # tl4) = pathClean p"
    and sp: "splitSlash p = (if rootdir = [] then [] else splitSlash rootdir) @ tl4" by blast
  from splitSlash_pathClean_tail [OF sp assms] obtain pre where
    "splitSlash (pathClean p) = pre @ tl4" by blast
  with pj show ?thesis by auto
qed

lemma pathJoin_rooted_plain:
  assumes plain: "\<forall>e \<in> set tl4. plainName e" and ne: "tl4 \<noteq> []"
    and root: "rootdir \<noteq> []" "hd rootdir = CHR ''/''"
  shows "pathJoin (rootdir # tl4) =
           ''/'' @ joinWith ''/'' (foldl (cleanElem True) [] (splitSlash rootdir) @ tl4)"
proof -
  from pathJoin_plain_tail [OF plain ne, of rootdir] root obtain p where
    pj: "pathJoin (rootdir # tl4) = pathClean p" and sp: "splitSlash p = splitSlash rootdir @ tl4"
    and r: "p \<noteq> [] \<and> hd p = CHR ''/''" by auto
  from pathClean_plain_tail [OF sp plain ne] r pj show ?thesis by simp
qed

lemma length_sha1Sum: "length (sha1Sum key) = 20"
  by (simp add: sha1Sum_def putUint32_def split: prod.splits)

lemma hexDigit_in: "n < 16 \<Longrightarrow> hexDigit n \<in> set hexDigits"
  unfolding hexDigit_def by (rule nth_mem) (simp add: hexDigits_def)

lemma set_hexByte: "set (hexByte b) \<subseteq> set hexDigits"
proof -
  have "unat b < 2 ^ 8" using unsigned_less [of b] by simp
  then have "unat b div 16 < 16" by simp
  then have "hexDigit (unat b div 16) \<in> set hexDigits" by (rule hexDigit_in)
  moreover have "hexDigit (unat b mod 16) \<in> set hexDigits" by (rule hexDigit_in) simp
  ultimately show ?thesis by (simp add: hexByte_def)
qed

lemma set_hex: "set (hex bs) \<subseteq> set hexDigits"
  using set_hexByte by (induction bs) (auto simp: hex_def)

lemma length_hex: "length (hex bs) = 2 * length bs"
  by (induction bs) (simp_all add: hex_def hexByte_def)

lemma plainName_hex:
  assumes "bs \<noteq> []"
  shows "plainName (hex bs)"
proof -
  have l: "2 \<le> length (hex bs)" using assms by (cases bs) (simp_all add: length_hex)
  have "CHR ''/'' \<notin> set hexDigits" and "CHR ''.'' \<notin> set hexDigits"
    by (simp_all add: hexDigits_def)
  with set_hex [of bs] have s: "CHR ''/'' \<notin> set (hex bs)" and d: "CHR ''.'' \<notin> set (hex bs)"
    by blast+
  from l have "hex bs \<noteq> []" and "hex bs \<noteq> ''.''" by auto
  moreover from d have "hex bs \<noteq> ''..''" by auto
  ultimately show ?thesis using s by (simp add: plainName_def)
qed

lemma plainName_golo_cache: "plainName ''.golo''" "plainName ''cache''"
  by (simp_all add: plainName_def)

lemma cacheDir_tail_plain:
  "\<forall>e \<in> set [''.golo'', ''cache'', hex (take 1 (sha1Sum key)), hex (drop 1 (sha1Sum key))]. plainName e"
proof -
  have "take 1 (sha1Sum key) \<noteq> []" "drop 1 (sha1Sum key) \<noteq> []"
    using length_sha1Sum [of key] by auto
  then show ?thesis
    using plainName_golo_cache by (simp add: plainName_hex)
qed

section \<open>The claims about the resolver\<close>

text \<open>
  C9. Every package descriptor produced by loading a located directory has its
  \<open>ImportPath\<close> set to the identifier that was requested, whatever \<^verbatim>\<open>build.ImportDir\<close>
  derived from the directory: \<open>importPath\<close> returns the descriptor of the directory with
  the requested identifier in place of its own, so the same directory loads under any
  other identifier with the same content; the standard lookup \<open>load\<close> and the pinned-cache
  lookup of \<open>register\<close> return descriptors that carry the requested identifier.
\<close>

theorem loaded_ImportPath_is_requested:
  "(importPath w path dir = Inr p \<longrightarrow>
      ImportPath p = path \<and>
      (\<exists>q. ImportDir w dir = Inr q \<and> p = q\<lparr>ImportPath := path\<rparr>) \<and>
      importPath w path' dir = Inr (p\<lparr>ImportPath := path'\<rparr>)) \<and>
   (load w rootdir path = Inr p \<longrightarrow> ImportPath p = path) \<and>
   (HasPrefix path prefix \<longrightarrow> register w rootdir prefix kind arg fallback path = Inr p \<longrightarrow>
      ImportPath p = path)"
proof (intro conjI impI)
  assume a: "importPath w path dir = Inr p"
  then show "ImportPath p = path" by (rule importPath_ImportPath)
  from a show "\<exists>q. ImportDir w dir = Inr q \<and> p = q\<lparr>ImportPath := path\<rparr>"
    by (auto simp: importPath_def split: sum.splits)
  from a show "importPath w path' dir = Inr (p\<lparr>ImportPath := path'\<rparr>)"
    by (auto simp: importPath_def split: sum.splits)
next
  assume "load w rootdir path = Inr p"
  then show "ImportPath p = path" by (rule load_ImportPath)
next
  assume "HasPrefix path prefix" "register w rootdir prefix kind arg fallback path = Inr p"
  then show "ImportPath p = path"
    by (auto simp: register_def Let_def split: option.splits if_splits dest: importPath_ImportPath)
qed

theorem loaded_ImportPath_is_requested_witness:
  "importPath demoWorld ''dep'' ''/proj/vendor/dep'' =
     Inr \<lparr>Dir = ''/proj/vendor/dep'', Name = ''dep'', ImportPath = ''dep'', Imports = [''fmt'', ''cyc'']\<rparr> \<and>
   ImportDir demoWorld ''/proj/vendor/dep'' =
     Inr \<lparr>Dir = ''/proj/vendor/dep'', Name = ''dep'', ImportPath = ''.'', Imports = [''fmt'', ''cyc'']\<rparr> \<and>
   importPath demoWorld ''example.com/fork/dep'' ''/proj/vendor/dep'' =
     Inr \<lparr>Dir = ''/proj/vendor/dep'', Name = ''dep'', ImportPath = ''example.com/fork/dep'',
          Imports = [''fmt'', ''cyc'']\<rparr> \<and>
   load demoWorld ''/proj'' ''dep'' =
     Inr \<lparr>Dir = ''/proj/vendor/dep'', Name = ''dep'', ImportPath = ''dep'', Imports = [''fmt'', ''cyc'']\<rparr> \<and>
   HasPrefix ''example.com/foo/bar'' ''example.com/foo'' \<and>
   register pinWorld ''/proj'' ''example.com/foo'' ''pin'' ''v1'' (load pinWorld ''/proj'') ''example.com/foo/bar''
     = Inr (pinPkg\<lparr>ImportPath := ''example.com/foo/bar''\<rparr>) \<and>
   ImportPath (pinPkg\<lparr>ImportPath := ''example.com/foo/bar''\<rparr>) = ''example.com/foo/bar''"
proof -
  let ?dep = "\<lparr>Dir = ''/proj/vendor/dep'', Name = ''dep'', ImportPath = ''dep'', Imports = [''fmt'', ''cyc'']\<rparr>"
  have a: "importPath demoWorld ''dep'' ''/proj/vendor/dep'' = Inr ?dep"
    by code_simp
  have b: "ImportDir demoWorld ''/proj/vendor/dep'' =
     Inr \<lparr>Dir = ''/proj/vendor/dep'', Name = ''dep'', ImportPath = ''.'', Imports = [''fmt'', ''cyc'']\<rparr>"
    by code_simp
  have c: "load demoWorld ''/proj'' ''dep'' = Inr ?dep"
    by code_simp
  have d: "HasPrefix ''example.com/foo/bar'' ''example.com/foo''"
    by code_simp
  have e: "register pinWorld ''/proj'' ''example.com/foo'' ''pin'' ''v1'' (load pinWorld ''/proj'') ''example.com/foo/bar''
     = Inr (pinPkg\<lparr>ImportPath := ''example.com/foo/bar''\<rparr>)"
    using d by (simp add: register_def importPath_def pinWorld_def pinDir_def)
  note t1 = loaded_ImportPath_is_requested [of demoWorld "''dep''" "''/proj/vendor/dep''" ?dep
      "''example.com/fork/dep''" "''/proj''" "''dep''"]
  note t2 = loaded_ImportPath_is_requested [of pinWorld "''example.com/foo/bar''" _
      "pinPkg\<lparr>ImportPath := ''example.com/foo/bar''\<rparr>" _ "''/proj''" "''example.com/foo''"
      "''pin''" "''v1''" "load pinWorld ''/proj''"]
  from t1 a have f: "importPath demoWorld ''example.com/fork/dep'' ''/proj/vendor/dep'' =
     Inr (?dep\<lparr>ImportPath := ''example.com/fork/dep''\<rparr>)" by blast
  from t2 d e have g: "ImportPath (pinPkg\<lparr>ImportPath := ''example.com/foo/bar''\<rparr>) = ''example.com/foo/bar''"
    by blast
  from a b c d e f g show ?thesis by simp
qed

text \<open>
  C1. \<open>load\<close> probes \<^verbatim>\<open>GOROOT/src/path\<close> first. When \<^verbatim>\<open>os.Stat\<close> finds it, the package is
  loaded from there, and the result depends neither on the project root nor on the vendor
  directory (an identifier present under both resolves to the standard-library root).
  When \<^verbatim>\<open>os.Stat\<close> does not find it, \<^verbatim>\<open>rootdir/vendor/path\<close> is probed and the package is
  loaded from there when it is found. When neither is found the process ends with the
  message \<^verbatim>\<open>fatal: cannot resolve path\<close> followed by that identifier and the error of the
  second probe. (A path is found when \<^verbatim>\<open>os.Stat\<close> returns no error.)
\<close>

theorem load_probes_goroot_then_vendor:
  "(Stat w (pathJoin [GOROOT w, ''src'', path]) = None \<longrightarrow>
      load w rootdir path = importPath w path (pathJoin [GOROOT w, ''src'', path]) \<and>
      (GOROOT w' = GOROOT w \<longrightarrow>
       Stat w' (pathJoin [GOROOT w, ''src'', path]) = None \<longrightarrow>
       ImportDir w' (pathJoin [GOROOT w, ''src'', path]) = ImportDir w (pathJoin [GOROOT w, ''src'', path]) \<longrightarrow>
       load w' rootdir' path = load w rootdir path)) \<and>
   (Stat w (pathJoin [GOROOT w, ''src'', path]) \<noteq> None \<longrightarrow>
    Stat w (pathJoin [rootdir, ''vendor'', path]) = None \<longrightarrow>
      load w rootdir path = importPath w path (pathJoin [rootdir, ''vendor'', path])) \<and>
   (Stat w (pathJoin [GOROOT w, ''src'', path]) \<noteq> None \<longrightarrow>
    Stat w (pathJoin [rootdir, ''vendor'', path]) = Some err \<longrightarrow>
      load w rootdir path =
        Inl (''fatal: cannot resolve path'' @ path @ '' '' @ Error err @ [CHR 0x0A]))"
  by (auto simp: load_def Let_def importPath_def fatal_def Sprintln_def split: option.splits)

theorem load_probes_goroot_then_vendor_witness:
  "Stat demoWorld (pathJoin [GOROOT demoWorld, ''src'', ''both'']) = None \<and>
   Stat demoWorld (pathJoin [''/proj'', ''vendor'', ''both'']) = None \<and>
   load demoWorld ''/proj'' ''both'' = importPath demoWorld ''both'' ''/go/src/both'' \<and>
   load demoWorld ''/elsewhere'' ''both'' = load demoWorld ''/proj'' ''both'' \<and>
   Stat demoWorld (pathJoin [GOROOT demoWorld, ''src'', ''dep'']) \<noteq> None \<and>
   Stat demoWorld (pathJoin [''/proj'', ''vendor'', ''dep'']) = None \<and>
   load demoWorld ''/proj'' ''dep'' = importPath demoWorld ''dep'' ''/proj/vendor/dep'' \<and>
   Stat demoWorld (pathJoin [GOROOT demoWorld, ''src'', ''github.com/x/y'']) \<noteq> None \<and>
   Stat demoWorld (pathJoin [''/proj'', ''vendor'', ''github.com/x/y'']) =
     Some (OsError True ''stat /proj/vendor/github.com/x/y: no such file or directory'') \<and>
   load demoWorld ''/proj'' ''github.com/x/y'' =
     Inl ''fatal: cannot resolve pathgithub.com/x/y stat /proj/vendor/github.com/x/y: no such file or directory\<newline>''"
proof -
  have j1: "pathJoin [GOROOT demoWorld, ''src'', ''both''] = ''/go/src/both''"
    and j2: "pathJoin [''/proj'', ''vendor'', ''dep''] = ''/proj/vendor/dep''"
    by code_simp+
  have s1: "Stat demoWorld (pathJoin [GOROOT demoWorld, ''src'', ''both'']) = None"
    and s2: "Stat demoWorld (pathJoin [''/proj'', ''vendor'', ''both'']) = None"
    and s3: "Stat demoWorld (pathJoin [GOROOT demoWorld, ''src'', ''dep'']) \<noteq> None"
    and s4: "Stat demoWorld (pathJoin [''/proj'', ''vendor'', ''dep'']) = None"
    and s5: "Stat demoWorld (pathJoin [GOROOT demoWorld, ''src'', ''github.com/x/y'']) \<noteq> None"
    and s6: "Stat demoWorld (pathJoin [''/proj'', ''vendor'', ''github.com/x/y'']) =
      Some (OsError True ''stat /proj/vendor/github.com/x/y: no such file or directory'')"
    by code_simp+
  note both = load_probes_goroot_then_vendor [of demoWorld "''both''" "''/proj''" demoWorld "''/elsewhere''"]
  note dep = load_probes_goroot_then_vendor [of demoWorld "''dep''" "''/proj''"]
  note miss = load_probes_goroot_then_vendor [of demoWorld "''github.com/x/y''" "''/proj''" _ _
      "OsError True ''stat /proj/vendor/github.com/x/y: no such file or directory''"]
  from both s1 have b1: "load demoWorld ''/proj'' ''both'' = importPath demoWorld ''both'' ''/go/src/both''"
    and b2: "load demoWorld ''/elsewhere'' ''both'' = load demoWorld ''/proj'' ''both''"
    by (auto simp: j1)
  from dep s3 s4 have d1: "load demoWorld ''/proj'' ''dep'' = importPath demoWorld ''dep'' ''/proj/vendor/dep''"
    by (auto simp: j2)
  from miss s5 s6 have m1: "load demoWorld ''/proj'' ''github.com/x/y'' =
     Inl ''fatal: cannot resolve pathgithub.com/x/y stat /proj/vendor/github.com/x/y: no such file or directory\<newline>''"
    by simp
  from s1 s2 s3 s4 s5 s6 b1 b2 d1 m1 show ?thesis by blast
qed

text \<open>
  C2, as stated: the resolver prefers the vendor directory and falls back to the
  standard-library root. The code does the opposite: with \<^verbatim>\<open>both\<close> present under
  \<^verbatim>\<open>/proj/vendor\<close> and under \<^verbatim>\<open>/go/src\<close>, the package that imports it gets the one from
  \<^verbatim>\<open>/go/src\<close>.
\<close>

theorem vendor_not_preferred_counterexample:
  "Stat demoWorld (pathJoin [''/proj'', ''vendor'', ''both'']) = None \<and>
   importPath demoWorld ''both'' (pathJoin [''/proj'', ''vendor'', ''both'']) =
     Inr \<lparr>Dir = ''/proj/vendor/both'', Name = ''both'', ImportPath = ''both'', Imports = []\<rparr> \<and>
   loadDependencies demoWorld ''/proj'' [demoLib] =
     Some (Inr [demoLib, \<lparr>Dir = ''/go/src/both'', Name = ''both'', ImportPath = ''both'', Imports = []\<rparr>]) \<and>
   \<lparr>Dir = ''/go/src/both'', Name = ''both'', ImportPath = ''both'', Imports = []\<rparr> \<noteq>
   \<lparr>Dir = ''/proj/vendor/both'', Name = ''both'', ImportPath = ''both'', Imports = []\<rparr>"
  by code_simp

text \<open>
  C2, amended: every package the resolver adds to the initial set was loaded from
  \<^verbatim>\<open>GOROOT/src\<close> under its identifier when \<^verbatim>\<open>os.Stat\<close> finds that directory, and from
  \<^verbatim>\<open>rootdir/vendor\<close> only when \<^verbatim>\<open>os.Stat\<close> does not find it under \<^verbatim>\<open>GOROOT/src\<close>.
\<close>

theorem resolver_prefers_goroot:
  assumes "loadDependencies w rootdir srcs0 = Some (Inr out)"
  shows "\<exists>new. out = srcs0 @ new \<and>
           (\<forall>p \<in> set new.
              (Stat w (pathJoin [GOROOT w, ''src'', ImportPath p]) = None \<longrightarrow>
                 importPath w (ImportPath p) (pathJoin [GOROOT w, ''src'', ImportPath p]) = Inr p) \<and>
              (Stat w (pathJoin [GOROOT w, ''src'', ImportPath p]) \<noteq> None \<longrightarrow>
                 Stat w (pathJoin [rootdir, ''vendor'', ImportPath p]) = None \<and>
                 importPath w (ImportPath p) (pathJoin [rootdir, ''vendor'', ImportPath p]) = Inr p))"
proof -
  from loadDependencies_added [OF assms] obtain stf new where
    a: "added w rootdir \<lparr>seen = markAll srcs0, srcs = srcs0\<rparr> stf new" and out: "out = srcs0 @ new"
    by blast
  have "load w rootdir (ImportPath p) = Inr p" if "p \<in> set new" for p
    using addedD(5) [OF a that] .
  then show ?thesis
    using out load_cases by blast
qed

theorem resolver_prefers_goroot_witness:
  "loadDependencies demoWorld ''/proj'' [demoApp] = Some (Inr demoOut) \<and>
   (\<exists>new. demoOut = [demoApp] @ new \<and>
           (\<forall>p \<in> set new.
              (Stat demoWorld (pathJoin [GOROOT demoWorld, ''src'', ImportPath p]) = None \<longrightarrow>
                 importPath demoWorld (ImportPath p) (pathJoin [GOROOT demoWorld, ''src'', ImportPath p]) = Inr p) \<and>
              (Stat demoWorld (pathJoin [GOROOT demoWorld, ''src'', ImportPath p]) \<noteq> None \<longrightarrow>
                 Stat demoWorld (pathJoin [''/proj'', ''vendor'', ImportPath p]) = None \<and>
                 importPath demoWorld (ImportPath p) (pathJoin [''/proj'', ''vendor'', ImportPath p]) = Inr p)))"
  using demo_run resolver_prefers_goroot [OF demo_run] by simp

text \<open>
  C3. The seen-set starts as the identifiers of the initial set; a walk of an identifier
  that is seen returns at once and leaves the state as it is; and a run that returns has
  appended to the initial set packages with pairwise different identifiers, none of them
  an identifier of the initial set, each the result of \<open>load\<close> for its identifier (every
  load that returns appends its package, so these are the loads of the run). Hence every
  identifier imported by a package of the output is in the output, exactly once when it is
  not an identifier of the initial set, and never loaded when it is; an initial set with
  pairwise different identifiers gives an output with pairwise different identifiers.
\<close>

theorem loadDependencies_dedup:
  "(\<forall>k. isSeen (markAll srcs0) k = (k \<in> ImportPath ` set srcs0)) \<and>
   (isSeen (seen st) path \<longrightarrow> walk w rootdir path st = Some (Inr st)) \<and>
   (loadDependencies w rootdir srcs0 = Some (Inr out) \<longrightarrow>
      (\<exists>new. out = srcs0 @ new \<and>
         distinct (map ImportPath new) \<and>
         ImportPath ` set new \<inter> ImportPath ` set srcs0 = {} \<and>
         (\<forall>p \<in> set new. load w rootdir (ImportPath p) = Inr p) \<and>
         (distinct (map ImportPath srcs0) \<longrightarrow> distinct (map ImportPath out)) \<and>
         (\<forall>p \<in> set out. \<forall>i \<in> set (Imports p).
            i \<in> ImportPath ` set out \<and>
            (i \<notin> ImportPath ` set srcs0 \<longrightarrow> length (filter (\<lambda>q. ImportPath q = i) out) = 1) \<and>
            (i \<in> ImportPath ` set srcs0 \<longrightarrow> i \<notin> ImportPath ` set new))))"
proof (intro conjI allI impI)
  fix k show "isSeen (markAll srcs0) k = (k \<in> ImportPath ` set srcs0)"
    by (rule isSeen_markAll)
next
  assume "isSeen (seen st) path"
  then show "walk w rootdir path st = Some (Inr st)" by (rule walk_seen)
next
  assume run: "loadDependencies w rootdir srcs0 = Some (Inr out)"
  from loadDependencies_added [OF run] obtain stf new where
    a: "added w rootdir \<lparr>seen = markAll srcs0, srcs = srcs0\<rparr> stf new"
    and out: "out = srcs0 @ new"
    and imps: "\<forall>src \<in> set srcs0. set (Imports src) \<subseteq> marked stf"
    by blast
  note m0 = marked_initial [of srcs0]
  have d: "distinct (map ImportPath new)" by (rule addedD(2) [OF a])
  have disj: "ImportPath ` set new \<inter> ImportPath ` set srcs0 = {}"
    using addedD(4) [OF a] m0 by simp
  have mf: "marked stf = ImportPath ` set out"
    using addedD(3) [OF a] m0 out by auto
  have ld: "\<forall>p \<in> set new. load w rootdir (ImportPath p) = Inr p"
    using addedD(5) [OF a] by blast
  have closed: "\<forall>p \<in> set out. \<forall>i \<in> set (Imports p). i \<in> ImportPath ` set out"
    using imps addedD(6) [OF a] out mf by auto
  have once: "length (filter (\<lambda>q. ImportPath q = i) out) = 1"
    if "i \<in> ImportPath ` set out" "i \<notin> ImportPath ` set srcs0" for i
  proof -
    from that out have "i \<in> ImportPath ` set new" by auto
    then have "length (filter (\<lambda>q. ImportPath q = i) new) = 1"
      using d by (simp add: length_filter_distinct)
    moreover have "filter (\<lambda>q. ImportPath q = i) srcs0 = []"
      using that(2) by (auto simp: filter_empty_conv)
    ultimately show ?thesis using out by simp
  qed
  have dd: "distinct (map ImportPath out)" if "distinct (map ImportPath srcs0)"
    using that d disj out by auto
  show "\<exists>new. out = srcs0 @ new \<and>
         distinct (map ImportPath new) \<and>
         ImportPath ` set new \<inter> ImportPath ` set srcs0 = {} \<and>
         (\<forall>p \<in> set new. load w rootdir (ImportPath p) = Inr p) \<and>
         (distinct (map ImportPath srcs0) \<longrightarrow> distinct (map ImportPath out)) \<and>
         (\<forall>p \<in> set out. \<forall>i \<in> set (Imports p).
            i \<in> ImportPath ` set out \<and>
            (i \<notin> ImportPath ` set srcs0 \<longrightarrow> length (filter (\<lambda>q. ImportPath q = i) out) = 1) \<and>
            (i \<in> ImportPath ` set srcs0 \<longrightarrow> i \<notin> ImportPath ` set new))"
  proof (intro exI [of _ new] conjI ballI impI)
    show "out = srcs0 @ new" by (rule out)
    show "distinct (map ImportPath new)" by (rule d)
    show "ImportPath ` set new \<inter> ImportPath ` set srcs0 = {}" by (rule disj)
    show "load w rootdir (ImportPath p) = Inr p" if "p \<in> set new" for p using ld that by blast
    show "distinct (map ImportPath out)" if "distinct (map ImportPath srcs0)" using that by (rule dd)
    show "i \<in> ImportPath ` set out" if "p \<in> set out" "i \<in> set (Imports p)" for p i
      using closed that by blast
    show "length (filter (\<lambda>q. ImportPath q = i) out) = 1"
      if "p \<in> set out" "i \<in> set (Imports p)" "i \<notin> ImportPath ` set srcs0" for p i
      using once closed that by blast
    show "i \<notin> ImportPath ` set new"
      if "i \<in> ImportPath ` set srcs0" for i
      using disj that by blast
  qed
qed

theorem loadDependencies_dedup_witness:
  "isSeen (seen \<lparr>seen = markAll [demoApp], srcs = [demoApp]\<rparr>) ''example.com/app'' \<and>
   walk demoWorld ''/proj'' ''example.com/app'' \<lparr>seen = markAll [demoApp], srcs = [demoApp]\<rparr>
     = Some (Inr \<lparr>seen = markAll [demoApp], srcs = [demoApp]\<rparr>) \<and>
   loadDependencies demoWorld ''/proj'' [demoApp] = Some (Inr demoOut) \<and>
   distinct (map ImportPath [demoApp]) \<and>
   distinct (map ImportPath demoOut) \<and>
   ''fmt'' \<in> set (Imports (demoOut ! 1)) \<and> ''fmt'' \<in> set (Imports (demoOut ! 4)) \<and>
   length (filter (\<lambda>q. ImportPath q = ''fmt'') demoOut) = 1"
proof -
  have s: "isSeen (seen \<lparr>seen = markAll [demoApp], srcs = [demoApp]\<rparr>) ''example.com/app''"
    by (simp add: isSeen_def markAll_def demoApp_def)
  have d0: "distinct (map ImportPath [demoApp])" by simp
  note t = loadDependencies_dedup [of "[demoApp]" "\<lparr>seen = markAll [demoApp], srcs = [demoApp]\<rparr>"
      "''example.com/app''" demoWorld "''/proj''" demoOut]
  from t s have w: "walk demoWorld ''/proj'' ''example.com/app'' \<lparr>seen = markAll [demoApp], srcs = [demoApp]\<rparr>
     = Some (Inr \<lparr>seen = markAll [demoApp], srcs = [demoApp]\<rparr>)" by blast
  from t demo_run d0 have dd: "distinct (map ImportPath demoOut)" by blast
  have rest: "''fmt'' \<in> set (Imports (demoOut ! 1)) \<and> ''fmt'' \<in> set (Imports (demoOut ! 4)) \<and>
   length (filter (\<lambda>q. ImportPath q = ''fmt'') demoOut) = 1"
    by (simp add: demoOut_def demoApp_def)
  from s w demo_run d0 dd rest show ?thesis by blast
qed

text \<open>
  C10. On a finite import graph (a finite set of identifiers closed under the imports of
  the packages \<open>load\<close> finds), cyclic or not, the walk of any of its identifiers returns
  from every state, and so does \<open>loadDependencies\<close> for initial packages that import
  identifiers of the graph; marking an unseen identifier of the graph, which the walk does
  before it loads the package and follows its imports, leaves strictly fewer unseen
  identifiers.
\<close>

theorem walk_terminates:
  assumes "finite U" and "importsClosed w rootdir U"
  shows "(path \<in> U \<longrightarrow> (\<exists>y. walk w rootdir path st = Some y)) \<and>
         ((\<forall>src \<in> set srcs0. set (Imports src) \<subseteq> U) \<longrightarrow>
            (\<exists>y. loadDependencies w rootdir srcs0 = Some y)) \<and>
         (path \<in> U \<longrightarrow> \<not> isSeen (seen st) path \<longrightarrow>
            card (U - marked (st\<lparr>seen := (seen st)(path \<mapsto> True)\<rparr>)) < card (U - marked st))"
  using walk_returns [OF assms] loadDependencies_returns [OF assms] unseen_card_less [OF assms(1)]
  by blast

theorem walk_terminates_witness:
  "finite demoIds \<and> importsClosed demoWorld ''/proj'' demoIds \<and>
   ''dep'' \<in> demoIds \<and> ''dep'' \<in> set (Imports (demoOut ! 4)) \<and> ''cyc'' \<in> set (Imports (demoOut ! 1)) \<and>
   (\<exists>y. walk demoWorld ''/proj'' ''dep'' \<lparr>seen = markAll [demoApp], srcs = [demoApp]\<rparr> = Some y) \<and>
   set (Imports demoApp) \<subseteq> demoIds \<and>
   (\<exists>y. loadDependencies demoWorld ''/proj'' [demoApp] = Some y) \<and>
   \<not> isSeen (seen \<lparr>seen = markAll [demoApp], srcs = [demoApp]\<rparr>) ''dep'' \<and>
   card (demoIds - marked (\<lparr>seen = markAll [demoApp], srcs = [demoApp]\<rparr>
           \<lparr>seen := (seen \<lparr>seen = markAll [demoApp], srcs = [demoApp]\<rparr>)(''dep'' \<mapsto> True)\<rparr>))
     < card (demoIds - marked \<lparr>seen = markAll [demoApp], srcs = [demoApp]\<rparr>)"
proof -
  let ?st = "\<lparr>seen = markAll [demoApp], srcs = [demoApp]\<rparr>"
  have f: "finite demoIds" by (simp add: demoIds_def)
  have m: "''dep'' \<in> demoIds" by (simp add: demoIds_def)
  have c: "''dep'' \<in> set (Imports (demoOut ! 4)) \<and> ''cyc'' \<in> set (Imports (demoOut ! 1))"
    by (simp add: demoOut_def)
  have r: "set (Imports demoApp) \<subseteq> demoIds" by (simp add: demoIds_def demoApp_def)
  have u: "\<not> isSeen (seen ?st) ''dep''" by (simp add: isSeen_def markAll_def demoApp_def)
  note t = walk_terminates [OF f demo_closed, of "''dep''" ?st "[demoApp]"]
  from t m r u f demo_closed c show ?thesis by simp
qed

section \<open>The claims about the scanner\<close>

text \<open>
  C5. An entry is ignored exactly when its name starts with \<^verbatim>\<open>_\<close> or \<^verbatim>\<open>.\<close> or is
  \<^verbatim>\<open>testdata\<close> or \<^verbatim>\<open>vendor\<close>. The loop over the entries passes an ignored entry without
  touching it, so the scan of a tree is the scan of the tree with every ignored entry
  removed at every level (whatever is below an ignored entry, even a directory that cannot
  be opened, has no effect). Every descriptor a scan returns belongs to a directory
  reached from the root through names none of which is ignored, and its \<open>ImportPath\<close> is
  the prefix joined with those names.
\<close>

theorem loadSources_skips_ignored:
  "(ignored name \<longleftrightarrow>
     (\<exists>rest. name = CHR ''_'' # rest) \<or> (\<exists>rest. name = CHR ''.'' # rest) \<or>
     name = ''testdata'' \<or> name = ''vendor'') \<and>
   (ignored name \<longrightarrow>
      rangeFiles w prefix dir ((name, fi) # files) acc = rangeFiles w prefix dir files acc) \<and>
   loadSources w prefix dir (prune t) = loadSources w prefix dir t \<and>
   (loadSources w prefix dir t = Inr out \<longrightarrow>
      (\<forall>q \<in> set out. \<exists>ns fs pkg.
         (\<forall>n \<in> set ns. \<not> ignored n) \<and> atPath t ns (Directory fs) \<and>
         ImportDir w (descend dir ns) = Inr pkg \<and> q = pkg\<lparr>ImportPath := descend prefix ns\<rparr>))"
proof (intro conjI impI ballI)
  show "ignored name \<longleftrightarrow>
     (\<exists>rest. name = CHR ''_'' # rest) \<or> (\<exists>rest. name = CHR ''.'' # rest) \<or>
     name = ''testdata'' \<or> name = ''vendor''"
    by (rule ignored_iff)
  show "rangeFiles w prefix dir ((name, fi) # files) acc = rangeFiles w prefix dir files acc"
    if "ignored name" using that by simp
  show "loadSources w prefix dir (prune t) = loadSources w prefix dir t"
    by (rule loadSources_prune)
  show "\<exists>ns fs pkg.
         (\<forall>n \<in> set ns. \<not> ignored n) \<and> atPath t ns (Directory fs) \<and>
         ImportDir w (descend dir ns) = Inr pkg \<and> q = pkg\<lparr>ImportPath := descend prefix ns\<rparr>"
    if "loadSources w prefix dir t = Inr out" "q \<in> set out" for q
    using loadSources_origin(1) [OF that] unfolding scanned_def .
qed

theorem loadSources_skips_ignored_witness:
  "ignored ''.git'' \<and> ignored ''_ignored'' \<and> ignored ''testdata'' \<and> ignored ''vendor'' \<and>
   rangeFiles scanWorld ''example.com/app'' ''/proj''
     [(''vendor'', Directory [(''dep'', Directory [(''dep.go'', notDir)])])] [] = Inr [] \<and>
   prune scanTree =
     Directory
       [(''README.md'', notDir),
        (''a'', Directory [(''a.go'', notDir), (''b'', Directory [(''b.go'', notDir)])]),
        (''docs'', Directory [(''index.md'', notDir)]),
        (''main.go'', notDir)] \<and>
   loadSources scanWorld ''example.com/app'' ''/proj'' (prune scanTree) = Inr scanOut \<and>
   loadSources scanWorld ''example.com/app'' ''/proj'' scanTree = Inr scanOut \<and>
   (\<exists>ns fs pkg.
      (\<forall>n \<in> set ns. \<not> ignored n) \<and> atPath scanTree ns (Directory fs) \<and>
      ImportDir scanWorld (descend ''/proj'' ns) = Inr pkg \<and>
      scanOut ! 0 = pkg\<lparr>ImportPath := descend ''example.com/app'' ns\<rparr>)"
proof -
  note t = loadSources_skips_ignored [of _ scanWorld "''example.com/app''" "''/proj''" _ _ _ scanTree scanOut]
  have i: "ignored ''.git'' \<and> ignored ''_ignored'' \<and> ignored ''testdata'' \<and> ignored ''vendor''"
    using t [of "''.git''"] t [of "''_ignored''"] t [of "''testdata''"] t [of "''vendor''"] by simp
  have r: "rangeFiles scanWorld ''example.com/app'' ''/proj''
     [(''vendor'', Directory [(''dep'', Directory [(''dep.go'', notDir)])])] [] = Inr []"
    using i t [of "''vendor''" "Directory [(''dep'', Directory [(''dep.go'', notDir)])]" "[]" "[]"] by simp
  have p: "prune scanTree =
     Directory
       [(''README.md'', notDir),
        (''a'', Directory [(''a.go'', notDir), (''b'', Directory [(''b.go'', notDir)])]),
        (''docs'', Directory [(''index.md'', notDir)]),
        (''main.go'', notDir)]"
    by code_simp
  have q: "loadSources scanWorld ''example.com/app'' ''/proj'' (prune scanTree) = Inr scanOut"
    using t scan_run by simp
  have m: "scanOut ! 0 \<in> set scanOut" by (simp add: scanOut_def)
  have e: "\<exists>ns fs pkg.
      (\<forall>n \<in> set ns. \<not> ignored n) \<and> atPath scanTree ns (Directory fs) \<and>
      ImportDir scanWorld (descend ''/proj'' ns) = Inr pkg \<and>
      scanOut ! 0 = pkg\<lparr>ImportPath := descend ''example.com/app'' ns\<rparr>"
    using t scan_run m by blast
  from i r p q scan_run e show ?thesis by blast
qed

text \<open>
  C6. Children before self. In a scan that returns, take a directory reached through
  names that are not ignored (\<open>ns\<close>) and a directory strictly below it, again through
  names that are not ignored (\<open>ms\<close>), both with buildable source. The output holds the
  descriptors of both, and the descriptor of the descendant stands before the descriptor
  of the ancestor. (Directories below an ignored name are not scanned at all: C5.)
\<close>

theorem loadSources_children_before_self:
  assumes "loadSources w prefix dir t = Inr out"
    and "atPath t ns (Directory fa)"
    and "atPath (Directory fa) ms (Directory fb)"
    and "ms \<noteq> []"
    and "\<forall>n \<in> set (ns @ ms). \<not> ignored n"
    and "ImportDir w (descend dir ns) = Inr pa"
    and "ImportDir w (descend dir (ns @ ms)) = Inr pb"
  shows "\<exists>xs ys zs.
           out = xs @ [pb\<lparr>ImportPath := descend prefix (ns @ ms)\<rparr>] @ ys @
                 [pa\<lparr>ImportPath := descend prefix ns\<rparr>] @ zs"
proof -
  from assms(5) have nis: "\<forall>n \<in> set ns. \<not> ignored n" and mis: "\<forall>n \<in> set ms. \<not> ignored n"
    by simp_all
  from path_segment [OF assms(1,2) nis] obtain suba xs zs where
    suba: "loadSources w (descend prefix ns) (descend dir ns) (Directory fa) = Inr suba"
    and out: "out = xs @ suba @ zs" by blast
  from loadSources_Directory_Inr [OF suba] assms(6) obtain kids where
    kids: "rangeFiles w (descend prefix ns) (descend dir ns) fa [] = Inr kids"
    and sa: "suba = kids @ [pa\<lparr>ImportPath := descend prefix ns\<rparr>]" by auto
  from assms(4) obtain m ms' where ms: "ms = m # ms'" by (cases ms) auto
  with assms(3) obtain c where c: "(m, c) \<in> set fa" and at: "atPath c ms' (Directory fb)"
    by auto
  from mis ms have mi: "\<not> ignored m" and mis': "\<forall>n \<in> set ms'. \<not> ignored n" by simp_all
  from child_segment [OF kids c mi atPath_IsDir [OF at]] obtain subc xs1 ys1 where
    subc: "loadSources w (pathJoin [descend prefix ns, m]) (pathJoin [descend dir ns, m]) c = Inr subc"
    and k: "kids = xs1 @ subc @ ys1" by blast
  from path_segment [OF subc at mis'] obtain subb xs2 ys2 where
    subb: "loadSources w (descend (pathJoin [descend prefix ns, m]) ms')
             (descend (pathJoin [descend dir ns, m]) ms') (Directory fb) = Inr subb"
    and sc: "subc = xs2 @ subb @ ys2" by blast
  have dp: "descend (pathJoin [descend prefix ns, m]) ms' = descend prefix (ns @ ms)"
    and dd: "descend (pathJoin [descend dir ns, m]) ms' = descend dir (ns @ ms)"
    by (simp_all add: ms descend_append)
  from loadSources_Directory_Inr [OF subb] assms(7) obtain kb where
    sb: "subb = kb @ [pb\<lparr>ImportPath := descend prefix (ns @ ms)\<rparr>]"
    unfolding dp dd by auto
  have "out = (xs @ xs1 @ xs2 @ kb) @ [pb\<lparr>ImportPath := descend prefix (ns @ ms)\<rparr>] @ (ys2 @ ys1) @
                 [pa\<lparr>ImportPath := descend prefix ns\<rparr>] @ zs"
    using out sa k sc sb by simp
  then show ?thesis by blast
qed

theorem loadSources_children_before_self_witness:
  "loadSources scanWorld ''example.com/app'' ''/proj'' scanTree = Inr scanOut \<and>
   atPath scanTree [''a'']
     (Directory [(''a.go'', notDir), (''b'', Directory [(''b.go'', notDir)]),
                 (''testdata'', Directory [(''t.go'', notDir)])]) \<and>
   atPath (Directory [(''a.go'', notDir), (''b'', Directory [(''b.go'', notDir)]),
                 (''testdata'', Directory [(''t.go'', notDir)])]) [''b'']
     (Directory [(''b.go'', notDir)]) \<and>
   \<not> ignored ''a'' \<and> \<not> ignored ''b'' \<and>
   ImportDir scanWorld ''/proj/a'' = Inr (the (map_of scanDisk ''/proj/a'')) \<and>
   ImportDir scanWorld ''/proj/a/b'' = Inr (the (map_of scanDisk ''/proj/a/b'')) \<and>
   (\<exists>xs ys zs.
      scanOut = xs @ [\<lparr>Dir = ''/proj/a/b'', Name = ''b'', ImportPath = ''example.com/app/a/b'', Imports = []\<rparr>]
                @ ys @ [\<lparr>Dir = ''/proj/a'', Name = ''a'', ImportPath = ''example.com/app/a'',
                         Imports = [''example.com/app/a/b'', ''fmt'']\<rparr>] @ zs)"
proof -
  let ?fa = "[(''a.go'', notDir), (''b'', Directory [(''b.go'', notDir)]),
                 (''testdata'', Directory [(''t.go'', notDir)])]"
  let ?fb = "[(''b.go'', notDir)]"
  have a1: "atPath scanTree [''a''] (Directory ?fa)" by (simp add: scanTree_def)
  have a2: "atPath (Directory ?fa) [''b''] (Directory ?fb)" by simp
  have ni: "\<not> ignored ''a'' \<and> \<not> ignored ''b''" by code_simp
  then have nis: "\<forall>n \<in> set ([''a''] @ [''b'']). \<not> ignored n" by simp
  have d1: "descend ''/proj'' [''a''] = ''/proj/a''"
    and d2: "descend ''/proj'' ([''a''] @ [''b'']) = ''/proj/a/b''"
    and d3: "descend ''example.com/app'' [''a''] = ''example.com/app/a''"
    and d4: "descend ''example.com/app'' ([''a''] @ [''b'']) = ''example.com/app/a/b''"
    by code_simp+
  have i1: "ImportDir scanWorld ''/proj/a'' = Inr (the (map_of scanDisk ''/proj/a''))"
    and i2: "ImportDir scanWorld ''/proj/a/b'' = Inr (the (map_of scanDisk ''/proj/a/b''))"
    by code_simp+
  have v1: "the (map_of scanDisk ''/proj/a'') =
      \<lparr>Dir = ''/proj/a'', Name = ''a'', ImportPath = ''.'', Imports = [''example.com/app/a/b'', ''fmt'']\<rparr>"
    and v2: "the (map_of scanDisk ''/proj/a/b'') =
      \<lparr>Dir = ''/proj/a/b'', Name = ''b'', ImportPath = ''.'', Imports = []\<rparr>"
    by code_simp+
  have "\<exists>xs ys zs.
      scanOut = xs @ [(the (map_of scanDisk ''/proj/a/b''))\<lparr>ImportPath := ''example.com/app/a/b''\<rparr>]
                @ ys @ [(the (map_of scanDisk ''/proj/a''))\<lparr>ImportPath := ''example.com/app/a''\<rparr>] @ zs"
    using loadSources_children_before_self [OF scan_run a1 a2 _ nis, of "the (map_of scanDisk ''/proj/a'')"
        "the (map_of scanDisk ''/proj/a/b'')"] i1 i2
    by (simp only: d1 d2 d3 d4) simp
  then have e: "\<exists>xs ys zs.
      scanOut = xs @ [\<lparr>Dir = ''/proj/a/b'', Name = ''b'', ImportPath = ''example.com/app/a/b'', Imports = []\<rparr>]
                @ ys @ [\<lparr>Dir = ''/proj/a'', Name = ''a'', ImportPath = ''example.com/app/a'',
                         Imports = [''example.com/app/a/b'', ''fmt'']\<rparr>] @ zs"
    by (simp add: v1 v2)
  from scan_run a1 a2 ni i1 i2 e show ?thesis by blast
qed

text \<open>
  C7. After the loop over the entries of a directory has returned the descriptors
  \<open>kids\<close>: when \<^verbatim>\<open>build.ImportDir\<close> loads the directory, the scan of the directory returns
  \<open>kids\<close> and one more descriptor, the loaded package with the current prefix as its
  \<open>ImportPath\<close>; when it reports no buildable source, the scan returns \<open>kids\<close> and
  nothing else; on any other error the process ends with \<^verbatim>\<open>fatal:\<close> and the error. Such
  an error in a directory reached through names that are not ignored ends the scan of the
  whole tree.
\<close>

theorem loadSources_own_package:
  "(rangeFiles w prefix dir files [] = Inr kids \<longrightarrow>
      (ImportDir w dir = Inr pkg \<longrightarrow>
         loadSources w prefix dir (Directory files) = Inr (kids @ [pkg\<lparr>ImportPath := prefix\<rparr>])) \<and>
      (ImportDir w dir = Inl (NoGoError m) \<longrightarrow>
         loadSources w prefix dir (Directory files) = Inr kids) \<and>
      (ImportDir w dir = Inl (OtherError m) \<longrightarrow>
         loadSources w prefix dir (Directory files) = Inl (''fatal: '' @ m @ [CHR 0x0A]))) \<and>
   (atPath t ns (Directory fb) \<longrightarrow> (\<forall>n \<in> set ns. \<not> ignored n) \<longrightarrow>
      ImportDir w (descend dir ns) = Inl (OtherError m) \<longrightarrow>
      (\<exists>e. loadSources w prefix dir t = Inl e))"
proof (intro conjI impI)
  assume k: "rangeFiles w prefix dir files [] = Inr kids"
  show "loadSources w prefix dir (Directory files) = Inr (kids @ [pkg\<lparr>ImportPath := prefix\<rparr>])"
    if "ImportDir w dir = Inr pkg" using k that by simp
  show "loadSources w prefix dir (Directory files) = Inr kids"
    if "ImportDir w dir = Inl (NoGoError m)" using k that by simp
  show "loadSources w prefix dir (Directory files) = Inl (''fatal: '' @ m @ [CHR 0x0A])"
    if "ImportDir w dir = Inl (OtherError m)"
    using k that by (simp add: check_def fatal_def Sprintln_def)
next
  assume "atPath t ns (Directory fb)" "\<forall>n \<in> set ns. \<not> ignored n"
    "ImportDir w (descend dir ns) = Inl (OtherError m)"
  then show "\<exists>e. loadSources w prefix dir t = Inl e" by (rule loadSources_fatal_below)
qed

theorem loadSources_own_package_witness:
  "rangeFiles scanWorld ''example.com/app/a/b'' ''/proj/a/b'' [(''b.go'', notDir)] [] = Inr [] \<and>
   ImportDir scanWorld ''/proj/a/b'' = Inr \<lparr>Dir = ''/proj/a/b'', Name = ''b'', ImportPath = ''.'', Imports = []\<rparr> \<and>
   loadSources scanWorld ''example.com/app/a/b'' ''/proj/a/b'' (Directory [(''b.go'', notDir)]) =
     Inr [\<lparr>Dir = ''/proj/a/b'', Name = ''b'', ImportPath = ''example.com/app/a/b'', Imports = []\<rparr>] \<and>
   rangeFiles scanWorld ''example.com/app/docs'' ''/proj/docs'' [(''index.md'', notDir)] [] = Inr [] \<and>
   ImportDir scanWorld ''/proj/docs'' = Inl (NoGoError ''no buildable Go source files in /proj/docs'') \<and>
   loadSources scanWorld ''example.com/app/docs'' ''/proj/docs'' (Directory [(''index.md'', notDir)]) = Inr [] \<and>
   rangeFiles brokenWorld ''example.com/app/a/b'' ''/proj/a/b'' [(''b.go'', notDir)] [] = Inr [] \<and>
   ImportDir brokenWorld ''/proj/a/b'' = Inl (OtherError ''found packages b (b.go) and c (c.go) in /proj/a/b'') \<and>
   loadSources brokenWorld ''example.com/app/a/b'' ''/proj/a/b'' (Directory [(''b.go'', notDir)]) =
     Inl ''fatal: found packages b (b.go) and c (c.go) in /proj/a/b\<newline>'' \<and>
   atPath scanTree [''a'', ''b''] (Directory [(''b.go'', notDir)]) \<and>
   \<not> ignored ''a'' \<and> \<not> ignored ''b'' \<and>
   (\<exists>e. loadSources brokenWorld ''example.com/app'' ''/proj'' scanTree = Inl e)"
proof -
  let ?b = "\<lparr>Dir = ''/proj/a/b'', Name = ''b'', ImportPath = ''.'', Imports = []\<rparr>"
  let ?m = "''found packages b (b.go) and c (c.go) in /proj/a/b''"
  have k1: "rangeFiles scanWorld ''example.com/app/a/b'' ''/proj/a/b'' [(''b.go'', notDir)] [] = Inr []"
    and i1: "ImportDir scanWorld ''/proj/a/b'' = Inr ?b"
    and k2: "rangeFiles scanWorld ''example.com/app/docs'' ''/proj/docs'' [(''index.md'', notDir)] [] = Inr []"
    and i2: "ImportDir scanWorld ''/proj/docs'' = Inl (NoGoError ''no buildable Go source files in /proj/docs'')"
    and k3: "rangeFiles brokenWorld ''example.com/app/a/b'' ''/proj/a/b'' [(''b.go'', notDir)] [] = Inr []"
    and i3: "ImportDir brokenWorld ''/proj/a/b'' = Inl (OtherError ?m)"
    by code_simp+
  have at: "atPath scanTree [''a'', ''b''] (Directory [(''b.go'', notDir)])"
    by (simp add: scanTree_def)
  have ni: "\<not> ignored ''a'' \<and> \<not> ignored ''b''" by code_simp
  then have nis: "\<forall>n \<in> set [''a'', ''b'']. \<not> ignored n" by simp
  have d: "descend ''/proj'' [''a'', ''b''] = ''/proj/a/b''" by code_simp
  from loadSources_own_package [of scanWorld "''example.com/app/a/b''" "''/proj/a/b''"
      "[(''b.go'', notDir)]" "[]" ?b] k1 i1
  have r1: "loadSources scanWorld ''example.com/app/a/b'' ''/proj/a/b'' (Directory [(''b.go'', notDir)]) =
     Inr [\<lparr>Dir = ''/proj/a/b'', Name = ''b'', ImportPath = ''example.com/app/a/b'', Imports = []\<rparr>]"
    by simp
  from loadSources_own_package [of scanWorld "''example.com/app/docs''" "''/proj/docs''"
      "[(''index.md'', notDir)]" "[]" _ "''no buildable Go source files in /proj/docs''"] k2 i2
  have r2: "loadSources scanWorld ''example.com/app/docs'' ''/proj/docs'' (Directory [(''index.md'', notDir)]) = Inr []"
    by simp
  from loadSources_own_package [of brokenWorld "''example.com/app/a/b''" "''/proj/a/b''"
      "[(''b.go'', notDir)]" "[]" _ ?m] k3 i3
  have r3: "loadSources brokenWorld ''example.com/app/a/b'' ''/proj/a/b'' (Directory [(''b.go'', notDir)]) =
     Inl ''fatal: found packages b (b.go) and c (c.go) in /proj/a/b\<newline>''"
    by simp
  from loadSources_own_package [of brokenWorld "''example.com/app''" "''/proj''" _ _ _ ?m scanTree
      "[''a'', ''b'']" "[(''b.go'', notDir)]"] at nis i3
  have r4: "\<exists>e. loadSources brokenWorld ''example.com/app'' ''/proj'' scanTree = Inl e"
    by (simp only: d)
  from k1 i1 r1 k2 i2 r2 k3 i3 r3 at ni r4 show ?thesis by blast
qed

section \<open>The claims about the cache path and the override layer\<close>

text \<open>
  C8. \<open>cacheDir\<close> is a function of the project root and the scope string alone (it takes
  no file system), so equal scope strings give equal paths. The path is the join of the
  project root, \<^verbatim>\<open>.golo\<close>, \<^verbatim>\<open>cache\<close>, the hexadecimal encoding of the first byte of the
  SHA-1 digest of the scope string (two digits) and the hexadecimal encoding of the
  remaining 19 bytes (38 digits); whatever the project root is, the last four elements of
  the path are \<^verbatim>\<open>.golo\<close>, \<^verbatim>\<open>cache\<close>, the shard and the leaf.
\<close>

theorem cacheDir_sharded:
  "cacheDir rootdir key =
     pathJoin [rootdir, ''.golo'', ''cache'', hex [hd (sha1Sum key)], hex (tl (sha1Sum key))] \<and>
   length (sha1Sum key) = 20 \<and>
   length (hex [hd (sha1Sum key)]) = 2 \<and>
   length (hex (tl (sha1Sum key))) = 38 \<and>
   set (hex [hd (sha1Sum key)]) \<union> set (hex (tl (sha1Sum key))) \<subseteq> set hexDigits \<and>
   (\<exists>pre. splitSlash (cacheDir rootdir key) =
            pre @ [''.golo'', ''cache'', hex [hd (sha1Sum key)], hex (tl (sha1Sum key))]) \<and>
   (key' = key \<longrightarrow> cacheDir rootdir key' = cacheDir rootdir key)"
proof -
  have l: "length (sha1Sum key) = 20" by (rule length_sha1Sum)
  then have t1: "take 1 (sha1Sum key) = [hd (sha1Sum key)]" and d1: "drop 1 (sha1Sum key) = tl (sha1Sum key)"
    by (cases "sha1Sum key"; simp)+
  have c: "cacheDir rootdir key =
     pathJoin [rootdir, ''.golo'', ''cache'', hex [hd (sha1Sum key)], hex (tl (sha1Sum key))]"
    unfolding cacheDir_def Let_def t1 d1 ..
  have s: "\<exists>pre. splitSlash (cacheDir rootdir key) =
            pre @ [''.golo'', ''cache'', hex [hd (sha1Sum key)], hex (tl (sha1Sum key))]"
    unfolding c using splitSlash_pathJoin_tail [OF cacheDir_tail_plain [of key], of rootdir]
    unfolding t1 d1 by simp
  have h: "set (hex [hd (sha1Sum key)]) \<union> set (hex (tl (sha1Sum key))) \<subseteq> set hexDigits"
    using set_hex by blast
  from c l s h show ?thesis by (simp add: length_hex)
qed

theorem cacheDir_sharded_witness:
  "''a:'' @ ''b'' @ ''='' @ ''c'' = ''a:b=c'' \<and>
   cacheDir ''/proj'' (''a:'' @ ''b'' @ ''='' @ ''c'') = cacheDir ''/proj'' ''a:b=c'' \<and>
   cacheDir ''/proj'' ''a:b=c'' =
     ''/proj/.golo/cache/'' @ hex [hd (sha1Sum ''a:b=c'')] @ ''/'' @ hex (tl (sha1Sum ''a:b=c'')) \<and>
   length (hex [hd (sha1Sum ''a:b=c'')]) = 2 \<and> length (hex (tl (sha1Sum ''a:b=c''))) = 38"
proof -
  note t = cacheDir_sharded [of "''/proj''" "''a:b=c''" "''a:'' @ ''b'' @ ''='' @ ''c''"]
  have k: "''a:'' @ ''b'' @ ''='' @ ''c'' = ''a:b=c''" by simp
  from t k have same: "cacheDir ''/proj'' (''a:'' @ ''b'' @ ''='' @ ''c'') = cacheDir ''/proj'' ''a:b=c''"
    by blast
  from t have c: "cacheDir ''/proj'' ''a:b=c'' =
     pathJoin [''/proj'', ''.golo'', ''cache'', hex [hd (sha1Sum ''a:b=c'')], hex (tl (sha1Sum ''a:b=c''))]"
    and l: "length (hex [hd (sha1Sum ''a:b=c'')]) = 2 \<and> length (hex (tl (sha1Sum ''a:b=c''))) = 38"
    by blast+
  have pl: "\<forall>e \<in> set [''.golo'', ''cache'', hex [hd (sha1Sum ''a:b=c'')], hex (tl (sha1Sum ''a:b=c''))].
              plainName e"
  proof -
    have "length (hex (tl (sha1Sum ''a:b=c''))) \<noteq> 0" using l by simp
    then have "tl (sha1Sum ''a:b=c'') \<noteq> []" by (auto simp: hex_def)
    then show ?thesis using plainName_golo_cache by (simp add: plainName_hex)
  qed
  have r: "foldl (cleanElem True) [] (splitSlash ''/proj'') = [''proj'']" by code_simp
  have "pathJoin [''/proj'', ''.golo'', ''cache'', hex [hd (sha1Sum ''a:b=c'')], hex (tl (sha1Sum ''a:b=c''))] =
     ''/proj/.golo/cache/'' @ hex [hd (sha1Sum ''a:b=c'')] @ ''/'' @ hex (tl (sha1Sum ''a:b=c''))"
    using pathJoin_rooted_plain [OF pl, of "''/proj''", unfolded r] by simp
  with c k same l show ?thesis by simp
qed

text \<open>
  C4. The function \<open>register\<close> returns hands an identifier that does not start with
  \<open>prefix\<close> to \<open>fallback\<close> unchanged. For an identifier that starts with \<open>prefix\<close> it
  never asks \<open>fallback\<close>: it joins the cache directory of the scope
  \<open>prefix @ kind @ ''='' @ arg\<close> with the identifier, and loads the package from there
  when \<^verbatim>\<open>os.Stat\<close> finds the path; when the path does not exist the process ends with
  \<^verbatim>\<open>fatal:\<close> and the error of \<^verbatim>\<open>os.Stat\<close>. (On any other error of \<^verbatim>\<open>os.Stat\<close> the load
  is attempted all the same.)
\<close>

theorem register_prefix_scoping:
  "(\<not> HasPrefix path prefix \<longrightarrow>
      register w rootdir prefix kind arg fallback path = fallback path) \<and>
   (HasPrefix path prefix \<longrightarrow>
      register w rootdir prefix kind arg fallback path =
        register w rootdir prefix kind arg fallback' path \<and>
      (Stat w (pathJoin [cacheDir rootdir (prefix @ kind @ ''='' @ arg), path]) = None \<longrightarrow>
         register w rootdir prefix kind arg fallback path =
           importPath w path (pathJoin [cacheDir rootdir (prefix @ kind @ ''='' @ arg), path])) \<and>
      (Stat w (pathJoin [cacheDir rootdir (prefix @ kind @ ''='' @ arg), path]) = Some err \<longrightarrow>
       IsNotExist err \<longrightarrow>
         register w rootdir prefix kind arg fallback path = Inl (''fatal: '' @ Error err @ [CHR 0x0A])) \<and>
      (Stat w (pathJoin [cacheDir rootdir (prefix @ kind @ ''='' @ arg), path]) = Some err \<longrightarrow>
       \<not> IsNotExist err \<longrightarrow>
         register w rootdir prefix kind arg fallback path =
           importPath w path (pathJoin [cacheDir rootdir (prefix @ kind @ ''='' @ arg), path])))"
  by (auto simp: register_def Let_def check_def fatal_def Sprintln_def split: option.splits)

theorem register_prefix_scoping_witness:
  "\<not> HasPrefix ''example.com/other'' ''example.com/foo'' \<and>
   register pinWorld ''/proj'' ''example.com/foo'' ''pin'' ''v1'' (load demoWorld ''/proj'') ''example.com/other''
     = load demoWorld ''/proj'' ''example.com/other'' \<and>
   HasPrefix ''example.com/foo/bar'' ''example.com/foo'' \<and>
   Stat pinWorld pinDir = None \<and>
   register pinWorld ''/proj'' ''example.com/foo'' ''pin'' ''v1'' (load demoWorld ''/proj'') ''example.com/foo/bar''
     = Inr (pinPkg\<lparr>ImportPath := ''example.com/foo/bar''\<rparr>) \<and>
   Stat emptyWorld pinDir = Some (OsError True (''stat '' @ pinDir @ '': no such file or directory'')) \<and>
   register emptyWorld ''/proj'' ''example.com/foo'' ''pin'' ''v1'' (load demoWorld ''/proj'') ''example.com/foo/bar''
     = Inl (''fatal: stat '' @ pinDir @ '': no such file or directory'' @ [CHR 0x0A]) \<and>
   Stat deniedWorld pinDir = Some (OsError False (''stat '' @ pinDir @ '': permission denied'')) \<and>
   register deniedWorld ''/proj'' ''example.com/foo'' ''pin'' ''v1'' (load demoWorld ''/proj'') ''example.com/foo/bar''
     = Inl (''fatal: open '' @ pinDir @ '': permission denied'' @ [CHR 0x0A])"
proof -
  have n: "\<not> HasPrefix ''example.com/other'' ''example.com/foo''"
    and y: "HasPrefix ''example.com/foo/bar'' ''example.com/foo''"
    by code_simp+
  have s1: "Stat pinWorld pinDir = None"
    and s2: "Stat emptyWorld pinDir = Some (OsError True (''stat '' @ pinDir @ '': no such file or directory''))"
    and s3: "Stat deniedWorld pinDir = Some (OsError False (''stat '' @ pinDir @ '': permission denied''))"
    by (simp_all add: pinWorld_def emptyWorld_def deniedWorld_def)
  have i1: "importPath pinWorld ''example.com/foo/bar'' pinDir = Inr (pinPkg\<lparr>ImportPath := ''example.com/foo/bar''\<rparr>)"
    by (simp add: importPath_def pinWorld_def)
  have i3: "importPath deniedWorld ''example.com/foo/bar'' pinDir =
      Inl (''fatal: open '' @ pinDir @ '': permission denied'' @ [CHR 0x0A])"
    by (simp add: importPath_def deniedWorld_def check_def fatal_def Sprintln_def)
  note other = register_prefix_scoping [of "''example.com/other''" "''example.com/foo''" pinWorld "''/proj''"
      "''pin''" "''v1''" "load demoWorld ''/proj''"]
  note pin = register_prefix_scoping [of "''example.com/foo/bar''" "''example.com/foo''" pinWorld "''/proj''"
      "''pin''" "''v1''" "load demoWorld ''/proj''"]
  note emp = register_prefix_scoping [of "''example.com/foo/bar''" "''example.com/foo''" emptyWorld "''/proj''"
      "''pin''" "''v1''" "load demoWorld ''/proj''" _
      "OsError True (''stat '' @ pinDir @ '': no such file or directory'')"]
  note den = register_prefix_scoping [of "''example.com/foo/bar''" "''example.com/foo''" deniedWorld "''/proj''"
      "''pin''" "''v1''" "load demoWorld ''/proj''" _
      "OsError False (''stat '' @ pinDir @ '': permission denied'')"]
  from other n have r0: "register pinWorld ''/proj'' ''example.com/foo'' ''pin'' ''v1'' (load demoWorld ''/proj'')
      ''example.com/other'' = load demoWorld ''/proj'' ''example.com/other''"
    by blast
  from pin y s1 i1 have r1: "register pinWorld ''/proj'' ''example.com/foo'' ''pin'' ''v1'' (load demoWorld ''/proj'')
      ''example.com/foo/bar'' = Inr (pinPkg\<lparr>ImportPath := ''example.com/foo/bar''\<rparr>)"
    unfolding pinDir_def [symmetric] by simp
  from emp y s2 have r2: "register emptyWorld ''/proj'' ''example.com/foo'' ''pin'' ''v1'' (load demoWorld ''/proj'')
      ''example.com/foo/bar'' = Inl (''fatal: stat '' @ pinDir @ '': no such file or directory'' @ [CHR 0x0A])"
    unfolding pinDir_def [symmetric] by simp
  from den y s3 i3 have r3: "register deniedWorld ''/proj'' ''example.com/foo'' ''pin'' ''v1'' (load demoWorld ''/proj'')
      ''example.com/foo/bar'' = Inl (''fatal: open '' @ pinDir @ '': permission denied'' @ [CHR 0x0A])"
    unfolding pinDir_def [symmetric] by simp
  from n r0 y s1 r1 s2 r2 s3 r3 show ?thesis by blast
qed

end
